theory Spec2Isabelle
  imports Complex_Main "HOL-Library.Word"
begin

unbundle bit_operations_syntax

section \<open>The dense matrix engine\<close>

text \<open>
  \<^verbatim>\<open>matrix_t\<close> is a struct of two \<^verbatim>\<open>int\<close> fields and a buffer of
  \<^verbatim>\<open>precision_t\<close> (double). The counts of an allocated matrix are never negative,
  so they are natural numbers here. The element type is a parameter: the arithmetic
  operations are read over the real numbers (rounding is not modelled), the binary
  input and output over the 64-bit patterns of the doubles.
\<close>

record 'a matrix =
  rows :: nat
  cols :: nat
  data :: "'a list"

text \<open>The representation invariant: the buffer holds \<open>rows * cols\<close> elements.\<close>

definition wf_matrix :: "'a matrix \<Rightarrow> bool" where
  "wf_matrix M \<longleftrightarrow> length (data M) = rows M * cols M"

text \<open>
  Modelled from the spec: the macro \<^verbatim>\<open>elem(M, i, j)\<close> of \<^verbatim>\<open>matrix.h\<close>, which is not
  among the sources. The spec gives the matrix "column-major element order", so the
  element of row \<open>i\<close> and column \<open>j\<close> is the cell \<open>j * rows + i\<close> of the buffer.
  \<open>elem\<close> reads the cell and \<open>elem_set\<close> is the assignment \<^verbatim>\<open>elem(M, i, j) = v\<close>.
\<close>

definition elem :: "'a matrix \<Rightarrow> nat \<Rightarrow> nat \<Rightarrow> 'a" where
  "elem M i j = data M ! (j * rows M + i)"

definition elem_set :: "'a matrix \<Rightarrow> nat \<Rightarrow> nat \<Rightarrow> 'a \<Rightarrow> 'a matrix" where
  "elem_set M i j v = M\<lparr>data := (data M)[j * rows M + i := v]\<rparr>"

text \<open>
  \<^verbatim>\<open>m_initialize\<close> takes its buffer from \<^verbatim>\<open>malloc\<close>, which does not clear it: the
  contents are whatever the block held before. The model takes that previous contents
  as the argument \<open>old\<close>. \<^verbatim>\<open>m_zeros\<close> and \<^verbatim>\<open>m_identity\<close> use \<^verbatim>\<open>calloc\<close>.
\<close>

definition m_initialize :: "nat \<Rightarrow> nat \<Rightarrow> 'a list \<Rightarrow> 'a matrix" where
  "m_initialize r c old = \<lparr>rows = r, cols = c, data = old\<rparr>"

definition m_zeros :: "nat \<Rightarrow> nat \<Rightarrow> real matrix" where
  "m_zeros r c = \<lparr>rows = r, cols = c, data = replicate (r * c) 0\<rparr>"

definition m_identity :: "nat \<Rightarrow> real matrix" where
  "m_identity n = fold (\<lambda>i M. elem_set M i i 1) [0..<n] (m_zeros n n)"

definition m_copy :: "'a matrix \<Rightarrow> 'a matrix" where
  "m_copy M = \<lparr>rows = rows M, cols = cols M, data = take (rows M * cols M) (data M)\<rparr>"

subsection \<open>Non-zero index extraction\<close>

text \<open>
  \<^verbatim>\<open>m_findNonZeros\<close>: the result \<open>R\<close> starts as \<open>m_zeros (rows * cols) 1\<close>; the scan
  runs over the rows and, inside, over the columns, and each non-zero element stores
  \<open>i + 1\<close> at \<open>elem(R, count, 0)\<close> and advances \<open>count\<close>.
\<close>

definition findNonZeros_step ::
  "real matrix \<Rightarrow> nat \<Rightarrow> nat \<Rightarrow> real matrix \<times> nat \<Rightarrow> real matrix \<times> nat" where
  "findNonZeros_step M i j s =
     (case s of (R, count) \<Rightarrow>
        let val = elem M i j
        in if val \<noteq> 0 then (elem_set R count 0 (real (i + 1)), count + 1)
           else (R, count))"

definition m_findNonZeros :: "real matrix \<Rightarrow> real matrix" where
  "m_findNonZeros M =
     fst (fold (\<lambda>i. fold (\<lambda>j. findNonZeros_step M i j) [0..<cols M]) [0..<rows M]
            (m_zeros (rows M * cols M) 1, 0))"

text \<open>The positions of a matrix in the order of the scan: row by row.\<close>

definition scan_order :: "'a matrix \<Rightarrow> (nat \<times> nat) list" where
  "scan_order M = List.product [0..<rows M] [0..<cols M]"

definition nonzero_positions :: "real matrix \<Rightarrow> (nat \<times> nat) list" where
  "nonzero_positions M = filter (\<lambda>(i, j). elem M i j \<noteq> 0) (scan_order M)"

subsection \<open>Outcomes of a call\<close>

text \<open>
  A call of the library returns to its caller, or it ends the process: a failed
  \<^verbatim>\<open>assert\<close> aborts, and \<^verbatim>\<open>exit(1)\<close> leaves with a status. \<open>Reported\<close> is the
  third way a call could end, an error value handed back to the caller.
\<close>

datatype error = DimensionMismatch | Singular

datatype 'a outcome = Returned 'a | Reported error | Aborted | Exited int

subsection \<open>Determinant\<close>

text \<open>
  \<^verbatim>\<open>sign = 1 - 2 * ((i % 2) ^ (j % 2))\<close>, with \<^verbatim>\<open>^\<close> the exclusive or of C.
\<close>

definition det_sign :: "nat \<Rightarrow> nat \<Rightarrow> int" where
  "det_sign i j = 1 - 2 * int ((i mod 2) XOR (j mod 2))"

text \<open>
  The loops of \<^verbatim>\<open>m_determinant\<close> that fill the scratch matrix \<open>A\<close> for the column
  \<open>j\<close> of the expansion. \<open>det_fill_rows\<close> is \<^verbatim>\<open>for (i = 1; i < M->rows; i++)\<close> for one
  column \<open>k\<close> of \<open>M\<close>, writing the column \<open>c\<close> of \<open>A\<close>. \<open>det_fill_cols\<close> is the loop
  over \<open>k\<close> that skips \<open>k = j\<close>. The variable \<open>i\<close> is shared by the whole function:
  the inner loop leaves it at \<open>max 1 rows\<close>, and \<open>det_fill_cols\<close> returns its final
  value together with the filled matrix.
\<close>

fun det_fill_rows ::
  "real matrix \<Rightarrow> nat \<Rightarrow> nat \<Rightarrow> nat list \<Rightarrow> real matrix \<Rightarrow> real matrix" where
  "det_fill_rows M k c [] A = A"
| "det_fill_rows M k c (i # is) A =
     det_fill_rows M k c is (elem_set A (i - 1) c (elem M i k))"

fun det_fill_cols ::
  "real matrix \<Rightarrow> nat \<Rightarrow> nat list \<Rightarrow> real matrix \<Rightarrow> nat \<Rightarrow> nat \<Rightarrow> real matrix \<times> nat" where
  "det_fill_cols M j [] A c i = (A, i)"
| "det_fill_cols M j (k # ks) A c i =
     (if k = j then det_fill_cols M j ks A c i
      else det_fill_cols M j ks (det_fill_rows M k c [1..<rows M] A) (c + 1) (max 1 (rows M)))"

text \<open>
  \<^verbatim>\<open>m_determinant\<close> calls itself. The first argument of the model bounds the depth of
  the nested calls: \<open>None\<close> says that the bound was reached before the call returned.
  The failed \<^verbatim>\<open>assert (M->cols == M->rows)\<close> aborts; an order below 1 prints a message
  and returns the initial value 0 of \<open>det\<close>. \<open>det_loop\<close> is the loop over the columns
  \<open>j\<close> of the first row, with the scratch matrix, the sum \<open>det\<close> and the shared
  variable \<open>i\<close> as its state. The sign is computed from \<open>i\<close> as the filling loops
  left it. \<open>A\<close> comes from \<^verbatim>\<open>m_initialize\<close>; every cell of it is assigned before the
  recursive call reads it, and the model starts it from zeros. \<open>i\<close> has no initial value
  in the source and is assigned by the first filling loop; the model starts it from 0.
\<close>

function m_determinant_fuel :: "nat \<Rightarrow> real matrix \<Rightarrow> real outcome option"
  and det_loop ::
    "nat \<Rightarrow> real matrix \<Rightarrow> nat list \<Rightarrow> real matrix \<Rightarrow> real \<Rightarrow> nat \<Rightarrow> real outcome option" where
  "m_determinant_fuel 0 M = None"
| "m_determinant_fuel (Suc n) M =
    (if cols M \<noteq> rows M then Some Aborted
     else if rows M < 1 then Some (Returned 0)
     else if rows M = 1 then Some (Returned (elem M 0 0))
     else if rows M = 2 then
       Some (Returned (elem M 0 0 * elem M 1 1 - elem M 1 0 * elem M 0 1))
     else det_loop n M [0..<cols M]
            (m_initialize (rows M - 1) (cols M - 1) (replicate ((rows M - 1) * (cols M - 1)) 0))
            0 0)"
| "det_loop n M [] A det i = Some (Returned det)"
| "det_loop n M (j # js) A det i =
    (case det_fill_cols M j [0..<cols M] A 0 i of (A', i') \<Rightarrow>
       (case m_determinant_fuel n A' of
          None \<Rightarrow> None
        | Some (Returned val) \<Rightarrow>
            det_loop n M js A' (det + real_of_int (det_sign i' j) * elem M 0 j * val) i'
        | Some (Reported e) \<Rightarrow> Some (Reported e)
        | Some Aborted \<Rightarrow> Some Aborted
        | Some (Exited x) \<Rightarrow> Some (Exited x)))"
  by pat_completeness auto
termination
  by (relation "measures
        [\<lambda>x. case x of Inl (n, M) \<Rightarrow> 2 * n | Inr (n, M, js, A, d, i) \<Rightarrow> 2 * n + 1,
         \<lambda>x. case x of Inl (n, M) \<Rightarrow> 0 | Inr (n, M, js, A, d, i) \<Rightarrow> length js]") auto

text \<open>The call of the source: \<open>rows M + 1\<close> nested calls are allowed.\<close>

definition m_determinant :: "real matrix \<Rightarrow> real outcome option" where
  "m_determinant M = m_determinant_fuel (Suc (rows M)) M"

subsection \<open>Cofactor matrix\<close>

text \<open>
  The loops of \<^verbatim>\<open>m_cofactor\<close> that copy into \<open>A\<close> the elements of \<open>M\<close> outside the row
  \<open>i\<close> and the column \<open>j\<close>: \<open>cofactor_fill_cols\<close> is the loop over \<open>c\<close> with its
  counter \<open>col\<close>, \<open>cofactor_fill_rows\<close> the loop over \<open>r\<close> with its counter \<open>row\<close>.
\<close>

fun cofactor_fill_cols ::
  "real matrix \<Rightarrow> nat \<Rightarrow> nat \<Rightarrow> nat \<Rightarrow> nat list \<Rightarrow> real matrix \<Rightarrow> nat \<Rightarrow> real matrix" where
  "cofactor_fill_cols M j r row [] A col = A"
| "cofactor_fill_cols M j r row (c # cs) A col =
     (if j = c then cofactor_fill_cols M j r row cs A col
      else cofactor_fill_cols M j r row cs (elem_set A row col (elem M r c)) (col + 1))"

fun cofactor_fill_rows ::
  "real matrix \<Rightarrow> nat \<Rightarrow> nat \<Rightarrow> nat list \<Rightarrow> real matrix \<Rightarrow> nat \<Rightarrow> real matrix" where
  "cofactor_fill_rows M i j [] A row = A"
| "cofactor_fill_rows M i j (r # rs) A row =
     (if i = r then cofactor_fill_rows M i j rs A row
      else cofactor_fill_rows M i j rs
             (cofactor_fill_cols M j r row [0..<cols M] A 0) (row + 1))"

text \<open>
  The loops over every element \<open>(i, j)\<close> of \<open>M\<close>: the determinant of the filled \<open>A\<close>,
  times the sign, is stored at \<^verbatim>\<open>elem(R, j, i)\<close>. \<open>A\<close> and \<open>R\<close> come from
  \<^verbatim>\<open>m_initialize\<close> and every cell of them is assigned before it is read; the model
  starts them from zeros.
\<close>

fun cofactor_cols ::
  "real matrix \<Rightarrow> nat \<Rightarrow> nat list \<Rightarrow> real matrix \<Rightarrow> real matrix
     \<Rightarrow> (real matrix \<times> real matrix) outcome option" where
  "cofactor_cols M i [] A R = Some (Returned (A, R))"
| "cofactor_cols M i (j # js) A R =
     (let A' = cofactor_fill_rows M i j [0..<rows M] A 0
      in case m_determinant A' of
           None \<Rightarrow> None
         | Some (Returned val) \<Rightarrow>
             cofactor_cols M i js A' (elem_set R j i (val * real_of_int (det_sign i j)))
         | Some (Reported e) \<Rightarrow> Some (Reported e)
         | Some Aborted \<Rightarrow> Some Aborted
         | Some (Exited x) \<Rightarrow> Some (Exited x))"

fun cofactor_rows ::
  "real matrix \<Rightarrow> nat list \<Rightarrow> real matrix \<Rightarrow> real matrix \<Rightarrow> real matrix outcome option" where
  "cofactor_rows M [] A R = Some (Returned R)"
| "cofactor_rows M (i # is) A R =
     (case cofactor_cols M i [0..<cols M] A R of
        None \<Rightarrow> None
      | Some (Returned (A', R')) \<Rightarrow> cofactor_rows M is A' R'
      | Some (Reported e) \<Rightarrow> Some (Reported e)
      | Some Aborted \<Rightarrow> Some Aborted
      | Some (Exited x) \<Rightarrow> Some (Exited x))"

definition m_cofactor :: "real matrix \<Rightarrow> real matrix outcome option" where
  "m_cofactor M =
     (if rows M \<noteq> cols M then Some Aborted
      else cofactor_rows M [0..<rows M]
             (m_initialize (rows M - 1) (cols M - 1)
                (replicate ((rows M - 1) * (cols M - 1)) 0))
             (m_initialize (rows M) (cols M) (replicate (rows M * cols M) 0)))"

text \<open>
  The determinant as the specification words it, to compare the code with: the
  expansion along the first row, the term of the column \<open>j\<close> signed by \<open>(-1) ^ j\<close>, with
  the orders 1 and 2 as base cases. \<open>minor_spec M i j\<close> is \<open>M\<close> without its row \<open>i\<close> and
  its column \<open>j\<close>.
\<close>

definition minor_spec :: "real matrix \<Rightarrow> nat \<Rightarrow> nat \<Rightarrow> real matrix" where
  "minor_spec M i j =
     \<lparr>rows = rows M - 1, cols = cols M - 1,
      data = concat (map (\<lambda>c. map (\<lambda>r. elem M (if r < i then r else r + 1)
                                               (if c < j then c else c + 1))
                                [0..<rows M - 1])
                         [0..<cols M - 1])\<rparr>"

fun det_spec :: "nat \<Rightarrow> real matrix \<Rightarrow> real"
  and det_spec_sum :: "nat \<Rightarrow> real matrix \<Rightarrow> nat list \<Rightarrow> real" where
  "det_spec 0 M = 0"
| "det_spec (Suc n) M =
     (if n = 0 then elem M 0 0
      else if n = 1 then elem M 0 0 * elem M 1 1 - elem M 1 0 * elem M 0 1
      else det_spec_sum n M [0..<Suc n])"
| "det_spec_sum n M [] = 0"
| "det_spec_sum n M (j # js) =
     (- 1) ^ j * elem M 0 j * det_spec n (minor_spec M 0 j) + det_spec_sum n M js"

text \<open>
  The index of \<open>M\<close> that the index \<open>r\<close> of a minor stands for when the row (or the
  column) \<open>i\<close> is left out, and the value that \<open>m_determinant\<close> returns for a square
  matrix.
\<close>

definition skip_index :: "nat \<Rightarrow> nat \<Rightarrow> nat" where
  "skip_index i r = (if r < i then r else r + 1)"

definition det_value :: "real matrix \<Rightarrow> real" where
  "det_value A = (case m_determinant A of Some (Returned d) \<Rightarrow> d | _ \<Rightarrow> 0)"

text \<open>
  The factor between the value that \<open>m_determinant\<close> returns and the expansion along
  the first row. The sign of a term is computed from \<open>i = rows M\<close> where the expansion
  has the row 0, so an order \<open>n \<ge> 3\<close> contributes the factor \<open>(-1) ^ n\<close>; the orders
  from 3 to \<open>n\<close> together give \<open>-1\<close> when \<open>n mod 4\<close> is 3 or 0.
\<close>

definition stale_sign :: "nat \<Rightarrow> real" where
  "stale_sign n = (if n mod 4 = 3 \<or> (0 < n \<and> n mod 4 = 0) then - 1 else 1)"

subsection \<open>Doubles that leave the real numbers\<close>

text \<open>
  A division of doubles is defined for every pair of operands: a division by zero gives
  an infinity, or the not-a-number for \<open>0 / 0\<close>. The operations below that divide by a
  value taken from the data are modelled over \<open>double\<close>, the real numbers together
  with the two infinities and the not-a-number. The two zeros of the format are one
  value.
\<close>

datatype double = Fin real | PInf | MInf | NaN

text \<open>
  The result of an operation on finite operands, from its exact value. The largest
  finite double is \<open>2 ^ 1024 - 2 ^ 971\<close>; under the rounding to nearest of IEEE 754 an
  exact value of magnitude \<open>2 ^ 1024 - 2 ^ 970\<close> or more overflows to the infinity of
  its sign. Below that magnitude the exact value stands for the double next to it:
  rounding is not modelled.
\<close>

definition overflow_threshold :: real where
  "overflow_threshold = 2 ^ 1024 - 2 ^ 970"

definition rounded :: "real \<Rightarrow> double" where
  "rounded x =
     (if overflow_threshold \<le> x then PInf
      else if x \<le> - overflow_threshold then MInf
      else Fin x)"

fun dadd :: "double \<Rightarrow> double \<Rightarrow> double" where
  "dadd (Fin x) (Fin y) = rounded (x + y)"
| "dadd NaN y = NaN"
| "dadd x NaN = NaN"
| "dadd PInf MInf = NaN"
| "dadd MInf PInf = NaN"
| "dadd PInf y = PInf"
| "dadd MInf y = MInf"
| "dadd (Fin x) y = y"

fun dneg :: "double \<Rightarrow> double" where
  "dneg (Fin x) = Fin (- x)"
| "dneg PInf = MInf"
| "dneg MInf = PInf"
| "dneg NaN = NaN"

definition dsub :: "double \<Rightarrow> double \<Rightarrow> double" where
  "dsub x y = dadd x (dneg y)"

fun ddiv :: "double \<Rightarrow> double \<Rightarrow> double" where
  "ddiv (Fin x) (Fin y) =
     (if y \<noteq> 0 then rounded (x / y) else if x = 0 then NaN else if 0 < x then PInf else MInf)"
| "ddiv NaN y = NaN"
| "ddiv x NaN = NaN"
| "ddiv (Fin x) y = Fin 0"
| "ddiv PInf (Fin y) = (if 0 \<le> y then PInf else MInf)"
| "ddiv MInf (Fin y) = (if 0 \<le> y then MInf else PInf)"
| "ddiv x y = NaN"

text \<open>The comparison \<^verbatim>\<open>x < y\<close> of C: false when an operand is the not-a-number.\<close>

fun dless :: "double \<Rightarrow> double \<Rightarrow> bool" where
  "dless (Fin x) (Fin y) = (x < y)"
| "dless NaN y = False"
| "dless x NaN = False"
| "dless x MInf = False"
| "dless PInf y = False"
| "dless x y = True"

subsection \<open>Min-max normalization\<close>

text \<open>
  \<^verbatim>\<open>m_normalize\<close>: \<open>min\<close> and \<open>max\<close> start from \<^verbatim>\<open>elem(M, 0, 0)\<close>; the first pair of
  loops updates them with every element, the second pair replaces every element by
  \<^verbatim>\<open>(elem(M, i, j) - min) / (max - min)\<close> in the matrix itself.
\<close>

definition normalize_minmax ::
  "double matrix \<Rightarrow> nat \<Rightarrow> nat \<Rightarrow> double \<times> double \<Rightarrow> double \<times> double" where
  "normalize_minmax M i j s =
     (case s of (mn, mx) \<Rightarrow>
        let val = elem M i j;
            mn' = (if dless val mn then val else mn);
            mx' = (if dless mx val then val else mx)
        in (mn', mx'))"

definition normalize_elem :: "double \<Rightarrow> double \<Rightarrow> nat \<Rightarrow> nat \<Rightarrow> double matrix \<Rightarrow> double matrix" where
  "normalize_elem mn mx i j M = elem_set M i j (ddiv (dsub (elem M i j) mn) (dsub mx mn))"

definition m_normalize :: "double matrix \<Rightarrow> double matrix" where
  "m_normalize M =
     (case fold (\<lambda>i. fold (\<lambda>j. normalize_minmax M i j) [0..<cols M]) [0..<rows M]
             (elem M 0 0, elem M 0 0) of
        (mn, mx) \<Rightarrow>
          fold (\<lambda>i. fold (\<lambda>j. normalize_elem mn mx i j) [0..<cols M]) [0..<rows M] M)"

subsection \<open>Elementwise binary operations\<close>

text \<open>
  The three functions return a pointer to a matrix they allocate, so the model keeps
  the matrices in a heap: a pointer is an index into the list of the allocated
  matrices, and an allocation appends to the list. The failed
  \<^verbatim>\<open>assert (A->rows == B->rows && A->cols == B->cols)\<close> aborts (the Makefile compiles
  without \<^verbatim>\<open>NDEBUG\<close>). The result comes from \<^verbatim>\<open>m_initialize\<close>, with \<open>old\<close> the previous
  contents of its buffer, and the loops assign its elements.
\<close>

type_synonym ptr = nat

type_synonym heap = "double matrix list"

definition dot_elem ::
  "(double \<Rightarrow> double \<Rightarrow> double) \<Rightarrow> double matrix \<Rightarrow> double matrix \<Rightarrow> nat \<Rightarrow> nat
     \<Rightarrow> double matrix \<Rightarrow> double matrix" where
  "dot_elem f A B i j R = elem_set R i j (f (elem A i j) (elem B i j))"

definition dot_loops ::
  "(double \<Rightarrow> double \<Rightarrow> double) \<Rightarrow> double matrix \<Rightarrow> double matrix \<Rightarrow> double matrix
     \<Rightarrow> double matrix" where
  "dot_loops f A B R = fold (\<lambda>i. fold (\<lambda>j. dot_elem f A B i j) [0..<cols A]) [0..<rows A] R"

definition dot_op ::
  "(double \<Rightarrow> double \<Rightarrow> double) \<Rightarrow> double list \<Rightarrow> heap \<Rightarrow> ptr \<Rightarrow> ptr \<Rightarrow> (ptr \<times> heap) outcome" where
  "dot_op f old h a b =
     (let A = h ! a; B = h ! b
      in if \<not> (rows A = rows B \<and> cols A = cols B) then Aborted
         else let R = m_initialize (rows A) (cols A) old
              in Returned (length h, h @ [dot_loops f A B R]))"

definition m_dot_subtract :: "double list \<Rightarrow> heap \<Rightarrow> ptr \<Rightarrow> ptr \<Rightarrow> (ptr \<times> heap) outcome" where
  "m_dot_subtract = dot_op dsub"

definition m_dot_add :: "double list \<Rightarrow> heap \<Rightarrow> ptr \<Rightarrow> ptr \<Rightarrow> (ptr \<times> heap) outcome" where
  "m_dot_add = dot_op dadd"

definition m_dot_division :: "double list \<Rightarrow> heap \<Rightarrow> ptr \<Rightarrow> ptr \<Rightarrow> (ptr \<times> heap) outcome" where
  "m_dot_division = dot_op ddiv"

subsection \<open>Inverse\<close>

text \<open>
  \<^verbatim>\<open>m_inverseMatrix\<close> works on the matrix in place, through two routines of LAPACK that
  are not part of the repository: \<^verbatim>\<open>LAPACKE_dgetrf\<close> (the LU factorization, which
  returns \<open>info\<close>, the factors and the pivots) and \<^verbatim>\<open>LAPACKE_dgetri\<close> (the inverse from
  the factors). They are parameters of the model, called with the arguments of the
  source. \<open>info \<noteq> 0\<close> after either call runs \<^verbatim>\<open>exit(1)\<close>.
\<close>

type_synonym 'a dgetrf = "nat \<Rightarrow> nat \<Rightarrow> 'a list \<Rightarrow> nat \<Rightarrow> int \<times> 'a list \<times> int list"

type_synonym 'a dgetri = "nat \<Rightarrow> 'a list \<Rightarrow> nat \<Rightarrow> int list \<Rightarrow> int \<times> 'a list"

definition m_inverseMatrix :: "'a dgetrf \<Rightarrow> 'a dgetri \<Rightarrow> 'a matrix \<Rightarrow> 'a matrix outcome" where
  "m_inverseMatrix LAPACKE_dgetrf LAPACKE_dgetri M =
     (case LAPACKE_dgetrf (cols M) (rows M) (data M) (rows M) of
        (info, lu, ipiv) \<Rightarrow>
          if info \<noteq> 0 then Exited 1
          else (case LAPACKE_dgetri (cols M) lu (rows M) ipiv of
                  (info2, a_inv) \<Rightarrow>
                    if info2 \<noteq> 0 then Exited 1
                    else Returned (M\<lparr>data := a_inv\<rparr>)))"

text \<open>The cell of the buffer that holds the element of a position.\<close>

definition cell :: "'a matrix \<Rightarrow> nat \<times> nat \<Rightarrow> nat" where
  "cell M p = snd p * rows M + fst p"

section \<open>Recognition\<close>

text \<open>
  \<^verbatim>\<open>Recognition.m\<close> is the recognition step whose code is among the sources
  (\<^verbatim>\<open>db_recognize\<close> is declared only). Its matrices are stored by columns, as the
  matrices of the engine are, and are modelled by the same record; a column vector is a
  list. \<open>InImage\<close> is the pixel column that \<^verbatim>\<open>imread\<close> and \<^verbatim>\<open>reshape\<close> produce from
  the test image.
\<close>

text \<open>\<^verbatim>\<open>A(:,i)\<close> for the column \<open>i\<close> counted from 0, and \<^verbatim>\<open>Eigenfaces' * v\<close>.\<close>

definition column :: "real matrix \<Rightarrow> nat \<Rightarrow> real list" where
  "column M i = map (\<lambda>k. elem M k i) [0..<rows M]"

definition mtimes_tr :: "real matrix \<Rightarrow> real list \<Rightarrow> real list" where
  "mtimes_tr E v = map (\<lambda>d. \<Sum>k\<leftarrow>[0..<rows E]. elem E k d * v ! k) [0..<cols E]"

text \<open>\<^verbatim>\<open>norm\<close> of a vector is its Euclidean norm.\<close>

definition norm2 :: "real list \<Rightarrow> real" where
  "norm2 v = sqrt (\<Sum>x\<leftarrow>v. x\<^sup>2)"

text \<open>
  \<^verbatim>\<open>[Euc_dist_min, OutputName] = min(Euc_dist)\<close>: the minimum of a column and the
  index, counted from 1, of its first occurrence; both are empty for an empty column.
  \<open>min_from\<close> scans the rest of the column with the best value and its index so far.
\<close>

fun min_from :: "real \<times> nat \<Rightarrow> nat \<Rightarrow> real list \<Rightarrow> real \<times> nat" where
  "min_from (best, besti) i [] = (best, besti)"
| "min_from (best, besti) i (x # xs) =
     (if x < best then min_from (x, i) (i + 1) xs else min_from (best, besti) (i + 1) xs)"

definition matlab_min :: "real list \<Rightarrow> (real \<times> nat) option" where
  "matlab_min xs = (case xs of [] \<Rightarrow> None | x # xs' \<Rightarrow> Some (min_from (x, 1) 2 xs'))"

text \<open>
  The result of \<^verbatim>\<open>Recognition\<close>: the index of a training image, or the empty matrix
  when there is no training image. With operands whose dimensions do not agree MATLAB
  raises an error or expands a scalar; the model leaves these inputs out
  (\<open>DimensionsDisagree\<close>).
\<close>

datatype recognized = Name nat | Empty | DimensionsDisagree

definition Recognition ::
  "real list \<Rightarrow> real list \<Rightarrow> real matrix \<Rightarrow> real matrix \<Rightarrow> recognized" where
  "Recognition InImage m A Eigenfaces =
     (if \<not> (rows A = rows Eigenfaces \<and> length m = rows Eigenfaces \<and>
             length InImage = length m) then DimensionsDisagree
      else
        let Test_Number = cols A;
            ProjectedImages = map (\<lambda>i. mtimes_tr Eigenfaces (column A i)) [0..<Test_Number];
            Difference = map2 (-) InImage m;
            ProjectedTestImage = mtimes_tr Eigenfaces Difference;
            Euc_dist = map (\<lambda>i. (norm2 (map2 (-) ProjectedTestImage (ProjectedImages ! i)))\<^sup>2)
                         [0..<Test_Number]
        in case matlab_min Euc_dist of
             None \<Rightarrow> Empty
           | Some (Euc_dist_min, OutputName) \<Rightarrow> Name OutputName)"

text \<open>
  The squared Euclidean distance of two vectors, and the distance that the claim
  speaks of: between the projected test image and the projected training column \<open>i\<close>
  (counted from 1).
\<close>

definition sq_distance :: "real list \<Rightarrow> real list \<Rightarrow> real" where
  "sq_distance x y = (\<Sum>(a, b)\<leftarrow>zip x y. (a - b)\<^sup>2)"

definition training_distance ::
  "real list \<Rightarrow> real list \<Rightarrow> real matrix \<Rightarrow> real matrix \<Rightarrow> nat \<Rightarrow> real" where
  "training_distance InImage m A Eigenfaces i =
     sq_distance (mtimes_tr Eigenfaces (map2 (-) InImage m))
                 (mtimes_tr Eigenfaces (column A (i - 1)))"

section \<open>Serialization\<close>

subsection \<open>Binary format\<close>

text \<open>
  \<^verbatim>\<open>fwrite\<close> copies the bytes of an object as they lie in memory and \<^verbatim>\<open>fread\<close> copies
  them back. The byte order is the platform's; the model takes the least significant
  byte first. An \<^verbatim>\<open>int\<close> has 4 bytes and a double 8; the elements of a matrix are the
  64-bit patterns of its doubles. \<open>le_bytes k n\<close> are the \<open>k\<close> low bytes of \<open>n\<close>.
\<close>

type_synonym byte = "8 word"

fun le_bytes :: "nat \<Rightarrow> nat \<Rightarrow> byte list" where
  "le_bytes 0 n = []"
| "le_bytes (Suc k) n = of_nat (n mod 256) # le_bytes k (n div 256)"

fun le_value :: "byte list \<Rightarrow> nat" where
  "le_value [] = 0"
| "le_value (b # bs) = unat b + 256 * le_value bs"

definition int_bytes :: "nat \<Rightarrow> byte list" where
  "int_bytes n = le_bytes 4 n"

definition double_bytes :: "64 word \<Rightarrow> byte list" where
  "double_bytes d = le_bytes 8 (unat d)"

text \<open>
  \<^verbatim>\<open>m_fwrite\<close>: the two counts, then \<open>rows * cols\<close> elements of the buffer. The result
  is what the call appends to the stream.
\<close>

definition m_fwrite :: "64 word matrix \<Rightarrow> byte list" where
  "m_fwrite M =
     int_bytes (rows M) @ int_bytes (cols M)
     @ concat (map double_bytes (take (rows M * cols M) (data M)))"

text \<open>
  \<^verbatim>\<open>m_fread\<close> reads from the front of the stream and returns the matrix with the rest of
  the stream. The source does not look at what \<^verbatim>\<open>fread\<close> returns: when the stream ends
  early, or a count is negative, what it builds is indeterminate, and the model gives
  \<open>None\<close>. \<open>read_doubles n\<close> is the \<^verbatim>\<open>fread\<close> of \<open>n\<close> elements into the buffer that
  \<^verbatim>\<open>m_initialize\<close> has allocated; it assigns every element of the buffer.
\<close>

definition read_int :: "byte list \<Rightarrow> (nat \<times> byte list) option" where
  "read_int bs =
     (if length bs < 4 \<or> 2 ^ 31 \<le> le_value (take 4 bs) then None
      else Some (le_value (take 4 bs), drop 4 bs))"

fun read_doubles :: "nat \<Rightarrow> byte list \<Rightarrow> (64 word list \<times> byte list) option" where
  "read_doubles 0 bs = Some ([], bs)"
| "read_doubles (Suc n) bs =
     (if length bs < 8 then None
      else case read_doubles n (drop 8 bs) of
             None \<Rightarrow> None
           | Some (ds, rest) \<Rightarrow> Some (of_nat (le_value (take 8 bs)) # ds, rest))"

definition m_fread :: "byte list \<Rightarrow> (64 word matrix \<times> byte list) option" where
  "m_fread bs =
     (case read_int bs of
        None \<Rightarrow> None
      | Some (r, bs1) \<Rightarrow>
          (case read_int bs1 of
             None \<Rightarrow> None
           | Some (c, bs2) \<Rightarrow>
               (case read_doubles (r * c) bs2 of
                  None \<Rightarrow> None
                | Some (ds, rest) \<Rightarrow> Some (\<lparr>rows = r, cols = c, data = ds\<rparr>, rest))))"

subsection \<open>Text format\<close>

text \<open>
  The text stream is modelled by the items that the conversions of \<^verbatim>\<open>fprintf\<close> write
  and those of \<^verbatim>\<open>fscanf\<close> read: a \<open>Number\<close> stands for a printed decimal numeral and
  holds the number it denotes, \<open>Space\<close> and \<open>Newline\<close> are the white space of the
  format strings.

  \<^verbatim>\<open>%lg\<close> prints a double with the default precision of 6 significant digits:
  \<open>lg x\<close> is the number that the printed numeral denotes, \<open>x\<close> rounded (to even on a
  tie) at the sixth significant decimal digit.
\<close>

datatype token = Number real | Space | Newline

definition round_half_even :: "real \<Rightarrow> int" where
  "round_half_even q =
     (if q - of_int \<lfloor>q\<rfloor> < 1 / 2 then \<lfloor>q\<rfloor>
      else if 1 / 2 < q - of_int \<lfloor>q\<rfloor> then \<lfloor>q\<rfloor> + 1
      else if even \<lfloor>q\<rfloor> then \<lfloor>q\<rfloor> else \<lfloor>q\<rfloor> + 1)"

definition lg :: "real \<Rightarrow> real" where
  "lg x =
     (if x = 0 then 0
      else of_int (round_half_even (x / 10 powr of_int (\<lfloor>log 10 \<bar>x\<bar>\<rfloor> - 5)))
             * 10 powr of_int (\<lfloor>log 10 \<bar>x\<bar>\<rfloor> - 5))"

text \<open>
  \<^verbatim>\<open>m_fprint\<close>: \<^verbatim>\<open>"%d %d\n"\<close> for the counts, then row by row \<^verbatim>\<open>"%lg "\<close> for each
  element and \<^verbatim>\<open>"\n"\<close> after the row.
\<close>

definition fprint_row :: "real matrix \<Rightarrow> nat \<Rightarrow> token list" where
  "fprint_row M i = concat (map (\<lambda>j. [Number (lg (elem M i j)), Space]) [0..<cols M]) @ [Newline]"

definition m_fprint :: "real matrix \<Rightarrow> token list" where
  "m_fprint M =
     [Number (of_nat (rows M)), Space, Number (of_nat (cols M)), Newline]
     @ concat (map (fprint_row M) [0..<rows M])"

text \<open>
  \<^verbatim>\<open>%d\<close> and \<^verbatim>\<open>%lf\<close> skip white space and read a numeral; \<^verbatim>\<open>%d\<close> reads a count only
  from the numeral of a natural number. \<^verbatim>\<open>m_fscan\<close> reads the counts, takes the matrix
  from \<^verbatim>\<open>m_initialize\<close> (\<open>old\<close> is the previous contents of the buffer) and reads the
  elements row by row into \<^verbatim>\<open>elem(M, i, j)\<close>. The source does not look at what
  \<^verbatim>\<open>fscanf\<close> returns; where a conversion fails the model gives \<open>None\<close>.
\<close>

fun skip_space :: "token list \<Rightarrow> token list" where
  "skip_space (Space # ts) = skip_space ts"
| "skip_space (Newline # ts) = skip_space ts"
| "skip_space ts = ts"

definition scan_lf :: "token list \<Rightarrow> (real \<times> token list) option" where
  "scan_lf ts = (case skip_space ts of Number x # rest \<Rightarrow> Some (x, rest) | _ \<Rightarrow> None)"

definition scan_d :: "token list \<Rightarrow> (nat \<times> token list) option" where
  "scan_d ts =
     (case skip_space ts of
        Number x # rest \<Rightarrow> if x = of_nat (nat \<lfloor>x\<rfloor>) then Some (nat \<lfloor>x\<rfloor>, rest) else None
      | _ \<Rightarrow> None)"

definition fscan_elem ::
  "nat \<Rightarrow> nat \<Rightarrow> (real matrix \<times> token list) option \<Rightarrow> (real matrix \<times> token list) option" where
  "fscan_elem i j s =
     (case s of
        None \<Rightarrow> None
      | Some (M, ts) \<Rightarrow>
          (case scan_lf ts of
             None \<Rightarrow> None
           | Some (x, rest) \<Rightarrow> Some (elem_set M i j x, rest)))"

definition m_fscan :: "real list \<Rightarrow> token list \<Rightarrow> (real matrix \<times> token list) option" where
  "m_fscan old ts =
     (case scan_d ts of
        None \<Rightarrow> None
      | Some (r, ts1) \<Rightarrow>
          (case scan_d ts1 of
             None \<Rightarrow> None
           | Some (c, ts2) \<Rightarrow>
               fold (\<lambda>i. fold (\<lambda>j. fscan_elem i j) [0..<c]) [0..<r]
                 (Some (m_initialize r c old, ts2))))"

text \<open>The numerals of a text stream, in order and without the white space.\<close>

fun numbers :: "token list \<Rightarrow> real list" where
  "numbers [] = []"
| "numbers (Number x # ts) = x # numbers ts"
| "numbers (Space # ts) = numbers ts"
| "numbers (Newline # ts) = numbers ts"

section \<open>LDA\<close>

subsection \<open>Matrix operations that LDA uses\<close>

text \<open>
  Where a loop assigns every element of a buffer that \<^verbatim>\<open>m_initialize\<close> has allocated
  before anything reads it, the model starts the buffer from zeros; where the buffer is
  read first, its previous contents are an argument of the model.
\<close>

text \<open>\<^verbatim>\<open>m_mean_column\<close>: the sums of the rows over all columns, divided by \<^verbatim>\<open>M->cols\<close>.\<close>

definition m_mean_column :: "real matrix \<Rightarrow> real matrix" where
  "m_mean_column M =
     fold (\<lambda>i a. elem_set a i 0 (elem a i 0 / real (cols M))) [0..<rows M]
       (fold (\<lambda>i. fold (\<lambda>j a. elem_set a j 0 (elem a j 0 + elem M j i)) [0..<rows M])
          [0..<cols M] (m_zeros (rows M) 1))"

text \<open>\<^verbatim>\<open>m_transpose\<close>: \<^verbatim>\<open>elem(T, i, j) = elem(M, j, i)\<close> for every element of \<open>T\<close>.\<close>

definition m_transpose :: "real matrix \<Rightarrow> real matrix" where
  "m_transpose M =
     fold (\<lambda>i. fold (\<lambda>j T. elem_set T i j (elem M j i)) [0..<rows M]) [0..<cols M]
       (m_initialize (cols M) (rows M) (replicate (cols M * rows M) 0))"

text \<open>\<^verbatim>\<open>m_elem_mult\<close>: every element times \<open>x\<close>, in place.\<close>

definition m_elem_mult :: "real matrix \<Rightarrow> real \<Rightarrow> real matrix" where
  "m_elem_mult M x =
     fold (\<lambda>i. fold (\<lambda>j M. elem_set M i j (elem M i j * x)) [0..<cols M]) [0..<rows M] M"

text \<open>
  The product that \<^verbatim>\<open>cblas_dgemm\<close> of BLAS (not part of the repository) stores for
  \<open>alpha = 1\<close> and \<open>beta = 0\<close>: the matrix product, by columns.
\<close>

definition gemm :: "real matrix \<Rightarrow> real matrix \<Rightarrow> real matrix" where
  "gemm A B =
     \<lparr>rows = rows A, cols = cols B,
      data = concat (map (\<lambda>j. map (\<lambda>i. \<Sum>k\<leftarrow>[0..<cols A]. elem A i k * elem B k j)
                                [0..<rows A])
                         [0..<cols B])\<rparr>"

text \<open>\<^verbatim>\<open>m_matrix_multiply\<close>: \<^verbatim>\<open>assert(A->cols == B->rows)\<close>, then the product.\<close>

definition m_matrix_multiply :: "real matrix \<Rightarrow> real matrix \<Rightarrow> real matrix outcome" where
  "m_matrix_multiply A B = (if cols A \<noteq> rows B then Aborted else Returned (gemm A B))"

text \<open>
  \<^verbatim>\<open>m_matrix_division\<close>: the inverse of a copy of \<open>B\<close>, then the product. A call that
  ends the process ends the caller.
\<close>

definition m_matrix_division ::
  "real dgetrf \<Rightarrow> real dgetri \<Rightarrow> real matrix \<Rightarrow> real matrix \<Rightarrow> real matrix outcome" where
  "m_matrix_division LAPACKE_dgetrf LAPACKE_dgetri A B =
     (case m_inverseMatrix LAPACKE_dgetrf LAPACKE_dgetri (m_copy B) of
        Returned C \<Rightarrow> m_matrix_multiply A C
      | Reported e \<Rightarrow> Reported e
      | Aborted \<Rightarrow> Aborted
      | Exited x \<Rightarrow> Exited x)"

text \<open>
  Modelled from the spec: \<^verbatim>\<open>m_product\<close>, \<^verbatim>\<open>m_add\<close>, \<^verbatim>\<open>m_subtract\<close>,
  \<^verbatim>\<open>m_subtract_columns\<close>, \<^verbatim>\<open>m_copy_columns\<close> and \<^verbatim>\<open>m_inverse\<close>, which \<^verbatim>\<open>lda.c\<close> calls and
  which are not among the sources. The spec: the matrix product "requires left.cols ==
  right.rows" and returns a new matrix; the elementwise add and subtract "require
  identical dimensions on both operands", fail "with a DimensionMismatch error
  otherwise" and mutate the receiver; the column-wise subtraction of a vector "mutates
  every column in place"; the class blocks are "contiguous per-class column blocks";
  the inverse is "computed via LU factorization", on a new matrix, and "fails fatally
  (process-terminating in the reference behavior)" when the factorization reports
  singularity.
\<close>

definition m_product :: "real matrix \<Rightarrow> real matrix \<Rightarrow> real matrix outcome" where
  "m_product A B =
     (if cols A \<noteq> rows B then Reported DimensionMismatch else Returned (gemm A B))"

definition m_add :: "real matrix \<Rightarrow> real matrix \<Rightarrow> real matrix outcome" where
  "m_add A B =
     (if \<not> (rows A = rows B \<and> cols A = cols B) then Reported DimensionMismatch
      else Returned (A\<lparr>data := map2 (+) (data A) (data B)\<rparr>))"

definition m_subtract :: "real matrix \<Rightarrow> real matrix \<Rightarrow> real matrix outcome" where
  "m_subtract A B =
     (if \<not> (rows A = rows B \<and> cols A = cols B) then Reported DimensionMismatch
      else Returned (A\<lparr>data := map2 (-) (data A) (data B)\<rparr>))"

definition m_subtract_columns :: "real matrix \<Rightarrow> real matrix \<Rightarrow> real matrix" where
  "m_subtract_columns M a =
     fold (\<lambda>i. fold (\<lambda>j M. elem_set M j i (elem M j i - elem a j 0)) [0..<rows M])
       [0..<cols M] M"

definition m_copy_columns :: "real matrix \<Rightarrow> nat \<Rightarrow> nat \<Rightarrow> real matrix" where
  "m_copy_columns X j k =
     \<lparr>rows = rows X, cols = k - j,
      data = take ((k - j) * rows X) (drop (j * rows X) (data X))\<rparr>"

definition m_inverse :: "real dgetrf \<Rightarrow> real dgetri \<Rightarrow> real matrix \<Rightarrow> real matrix outcome" where
  "m_inverse LAPACKE_dgetrf LAPACKE_dgetri M =
     m_inverseMatrix LAPACKE_dgetrf LAPACKE_dgetri (m_copy M)"

subsection \<open>Scatter matrices\<close>

record database_entry =
  entry_class :: int
  entry_name :: string

text \<open>
  The first loop of \<^verbatim>\<open>m_scatter\<close>. \<open>class_end\<close> is the search for the end \<open>k\<close> of the
  class that starts at the column \<open>j\<close>; \<open>scatter_classes\<close> cuts the block of each of the
  \<open>c\<close> classes and takes its mean column.
\<close>

fun class_end :: "database_entry list \<Rightarrow> nat \<Rightarrow> nat list \<Rightarrow> nat \<Rightarrow> nat" where
  "class_end entries j [] n = n"
| "class_end entries j (k # ks) n =
     (if entry_class (entries ! k) \<noteq> entry_class (entries ! j) then k
      else class_end entries j ks n)"

fun scatter_classes ::
  "real matrix \<Rightarrow> database_entry list \<Rightarrow> nat list \<Rightarrow> nat \<Rightarrow> (real matrix \<times> real matrix) list" where
  "scatter_classes X entries [] j = []"
| "scatter_classes X entries (i # is) j =
     (let k = class_end entries j [j..<cols X] (cols X);
          X_class = m_copy_columns X j k
      in (X_class, m_mean_column X_class) # scatter_classes X entries is k)"

text \<open>
  The mean of all classes: \<open>u\<close> comes from \<^verbatim>\<open>m_initialize\<close> and the loop adds the class
  means to what it holds, so the previous contents \<open>old\<close> of the buffer are an argument.
\<close>

definition scatter_mean :: "real matrix \<Rightarrow> nat \<Rightarrow> real matrix list \<Rightarrow> real list \<Rightarrow> real matrix" where
  "scatter_mean X c U old =
     fold (\<lambda>i u. elem_set u i 0 (elem u i 0 / real c)) [0..<rows X]
       (fold (\<lambda>i. fold (\<lambda>j u. elem_set u j 0 (elem u j 0 + elem (U ! i) j 0)) [0..<rows X])
          [0..<c] (m_initialize (rows X) 1 old))"

text \<open>The body of the last loop, for one class, and the loop.\<close>

definition scatter_class ::
  "real matrix \<Rightarrow> real matrix \<Rightarrow> real matrix \<Rightarrow> real matrix \<times> real matrix
     \<Rightarrow> (real matrix \<times> real matrix) outcome" where
  "scatter_class u X_class U_i S =
     (case S of (S_b, S_w) \<Rightarrow>
      case m_subtract (m_copy U_i) u of
        Returned u_i \<Rightarrow>
          (case m_product u_i (m_transpose u_i) of
             Returned S_b_i \<Rightarrow>
               (case m_add S_b (m_elem_mult S_b_i (real (cols X_class))) of
                  Returned S_b' \<Rightarrow>
                    (case m_product (m_subtract_columns X_class U_i)
                                    (m_transpose (m_subtract_columns X_class U_i)) of
                       Returned S_w_i \<Rightarrow>
                         (case m_add S_w S_w_i of
                            Returned S_w' \<Rightarrow> Returned (S_b', S_w')
                          | Reported e \<Rightarrow> Reported e | Aborted \<Rightarrow> Aborted | Exited x \<Rightarrow> Exited x)
                     | Reported e \<Rightarrow> Reported e | Aborted \<Rightarrow> Aborted | Exited x \<Rightarrow> Exited x)
                | Reported e \<Rightarrow> Reported e | Aborted \<Rightarrow> Aborted | Exited x \<Rightarrow> Exited x)
           | Reported e \<Rightarrow> Reported e | Aborted \<Rightarrow> Aborted | Exited x \<Rightarrow> Exited x)
      | Reported e \<Rightarrow> Reported e | Aborted \<Rightarrow> Aborted | Exited x \<Rightarrow> Exited x)"

fun scatter_loop ::
  "real matrix \<Rightarrow> (real matrix \<times> real matrix) list \<Rightarrow> real matrix \<times> real matrix
     \<Rightarrow> (real matrix \<times> real matrix) outcome" where
  "scatter_loop u [] S = Returned S"
| "scatter_loop u ((X_class, U_i) # cs) S =
     (case scatter_class u X_class U_i S of
        Returned S' \<Rightarrow> scatter_loop u cs S'
      | Reported e \<Rightarrow> Reported e | Aborted \<Rightarrow> Aborted | Exited x \<Rightarrow> Exited x)"

text \<open>
  \<^verbatim>\<open>m_scatter\<close> adds to the matrices \<open>S_b\<close> and \<open>S_w\<close> of its caller; the model returns
  them.
\<close>

definition m_scatter ::
  "real list \<Rightarrow> real matrix \<Rightarrow> nat \<Rightarrow> database_entry list \<Rightarrow> real matrix \<Rightarrow> real matrix
     \<Rightarrow> (real matrix \<times> real matrix) outcome" where
  "m_scatter old X c entries S_b S_w =
     (let classes = scatter_classes X entries [0..<c] 0;
          u = scatter_mean X c (map snd classes) old
      in scatter_loop u classes (S_b, S_w))"

subsection \<open>The LDA projection\<close>

text \<open>
  \<^verbatim>\<open>LDA\<close>. \<^verbatim>\<open>m_eigen\<close> (the eigenvalues and eigenvectors, by LAPACK) is a parameter of
  the model, as the two routines of the inverse are.
\<close>

definition LDA ::
  "real dgetrf \<Rightarrow> real dgetri \<Rightarrow> (real matrix \<Rightarrow> real matrix \<times> real matrix) \<Rightarrow> real list
     \<Rightarrow> real matrix \<Rightarrow> real matrix \<Rightarrow> nat \<Rightarrow> database_entry list \<Rightarrow> real matrix outcome" where
  "LDA LAPACKE_dgetrf LAPACKE_dgetri m_eigen old W_pca_tr P_pca c entries =
     (case m_scatter old P_pca c entries (m_zeros (rows P_pca) (rows P_pca))
             (m_zeros (rows P_pca) (rows P_pca)) of
        Returned (S_b, S_w) \<Rightarrow>
          (case m_inverse LAPACKE_dgetrf LAPACKE_dgetri S_w of
             Returned S_w_inv \<Rightarrow>
               (case m_product S_w_inv S_b of
                  Returned J \<Rightarrow>
                    (case m_eigen J of (J_eval, J_evec) \<Rightarrow>
                       m_product (m_transpose J_evec) W_pca_tr)
                | Reported e \<Rightarrow> Reported e | Aborted \<Rightarrow> Aborted | Exited x \<Rightarrow> Exited x)
           | Reported e \<Rightarrow> Reported e | Aborted \<Rightarrow> Aborted | Exited x \<Rightarrow> Exited x)
      | Reported e \<Rightarrow> Reported e | Aborted \<Rightarrow> Aborted | Exited x \<Rightarrow> Exited x)"

text \<open>
  What the two routines of LAPACK do on a matrix of order 1: the factorization of \<open>[a]\<close>
  is \<open>[a]\<close> with \<open>info = 1\<close> when \<open>a\<close> is zero, and the inverse is \<open>[1 / a]\<close>.
\<close>

definition dgetrf_order1 :: "real dgetrf" where
  "dgetrf_order1 m n a lda = (if a ! 0 = 0 then 1 else 0, a, [1])"

definition dgetri_order1 :: "real dgetri" where
  "dgetri_order1 n a lda ipiv = (if a ! 0 = 0 then (1, a) else (0, [1 / a ! 0]))"

text \<open>
  What the two routines do for a matrix of one row and several columns, as
  \<^verbatim>\<open>m_inverseMatrix\<close> passes it (the assertion that the matrix is square is commented
  out). The factorization is called with \<open>m = M->cols\<close>, \<open>n = M->rows = 1\<close>: it sees one
  column, whose pivot is the first element when no other element is larger in
  magnitude; the elements below the pivot are divided by it, and \<open>info = 1\<close> when the
  pivot is zero. The inverse is called with the order \<open>n = M->cols\<close> and the leading
  dimension \<open>lda = M->rows\<close>: \<^verbatim>\<open>LAPACKE_dgetri\<close> checks \<open>lda < n\<close> before it reads the
  factors, and reports its fourth argument with \<open>info = -4\<close>.
\<close>

definition dgetrf_one_column :: "real dgetrf" where
  "dgetrf_one_column m n a lda =
     (if a ! 0 = 0 then (1, a, [1]) else (0, a ! 0 # map (\<lambda>x. x / a ! 0) (tl a), [1]))"

definition dgetri_lda_check :: "real dgetri" where
  "dgetri_lda_check n a lda ipiv = (if lda < n then (- 4, a) else dgetri_order1 n a lda ipiv)"

subsection \<open>The scatter between the classes, as the specification words it\<close>

text \<open>
  The lengths of the runs of equal class labels; the blocks of column indices of the
  first \<open>c\<close> classes; the mean of the columns of a block; the mean of the class means,
  with equal weight for each class; and the element of \<open>S_b\<close>: the sum over the classes
  of the size of the class times the product of the deviations of its mean from the mean
  of the means.
\<close>

fun run_lengths :: "int list \<Rightarrow> nat list" where
  "run_lengths [] = []"
| "run_lengths [x] = [1]"
| "run_lengths (x # y # zs) =
     (if x = y then (case run_lengths (y # zs) of [] \<Rightarrow> [1] | n # ns \<Rightarrow> Suc n # ns)
      else 1 # run_lengths (y # zs))"

fun blocks_from :: "nat \<Rightarrow> nat list \<Rightarrow> nat list list" where
  "blocks_from j [] = []"
| "blocks_from j (n # ns) = [j..<j + n] # blocks_from (j + n) ns"

definition class_blocks :: "real matrix \<Rightarrow> nat \<Rightarrow> database_entry list \<Rightarrow> nat list list" where
  "class_blocks X c entries =
     take c (blocks_from 0 (run_lengths (map entry_class (take (cols X) entries))))"

definition block_mean :: "real matrix \<Rightarrow> nat list \<Rightarrow> nat \<Rightarrow> real" where
  "block_mean X b r = (\<Sum>k\<leftarrow>b. elem X r k) / real (length b)"

definition grand_mean :: "real matrix \<Rightarrow> nat list list \<Rightarrow> nat \<Rightarrow> real" where
  "grand_mean X bs r = (\<Sum>b\<leftarrow>bs. block_mean X b r) / real (length bs)"

definition S_b_spec :: "real matrix \<Rightarrow> nat list list \<Rightarrow> nat \<Rightarrow> nat \<Rightarrow> real" where
  "S_b_spec X bs r s =
     (\<Sum>b\<leftarrow>bs. real (length b) * (block_mean X b r - grand_mean X bs r)
                               * (block_mean X b s - grand_mean X bs s))"

text \<open>The eigenvalue and the eigenvector that LAPACK gives for a matrix of order 1.\<close>

definition m_eigen_order1 :: "real matrix \<Rightarrow> real matrix \<times> real matrix" where
  "m_eigen_order1 J = (J, \<lparr>rows = 1, cols = 1, data = [1]\<rparr>)"

section \<open>Properties\<close>

subsection \<open>Loops\<close>

lemma fold_nested_product:
  "fold (\<lambda>i. fold (\<lambda>j. f i j) ys) xs s = fold (\<lambda>(i, j). f i j) (List.product xs ys) s"
proof (induction xs arbitrary: s)
  case Nil
  show ?case by simp
next
  case (Cons x xs)
  have inner: "fold (\<lambda>(i, j). f i j) (map (Pair x) ys) t = fold (\<lambda>j. f x j) ys t" for t
    by (induction ys arbitrary: t) simp_all
  show ?case by (simp add: Cons.IH inner)
qed

subsection \<open>Non-zero index extraction\<close>

lemma findNonZeros_fold:
  assumes "data R = xs @ replicate m 0" and "length ps \<le> m"
  shows "fold (\<lambda>(i, j). findNonZeros_step M i j) ps (R, length xs) =
           (R\<lparr>data := xs @ map (\<lambda>(i, j). real (i + 1)) (filter (\<lambda>(i, j). elem M i j \<noteq> 0) ps)
                          @ replicate (m - length (filter (\<lambda>(i, j). elem M i j \<noteq> 0) ps)) 0\<rparr>,
            length xs + length (filter (\<lambda>(i, j). elem M i j \<noteq> 0) ps))"
  using assms
proof (induction ps arbitrary: R xs m)
  case Nil
  then show ?case by simp
next
  case (Cons p ps)
  obtain i j where p: "p = (i, j)" by (cases p)
  from Cons.prems obtain m' where m: "m = Suc m'" by (cases m) auto
  show ?case
  proof (cases "elem M i j = 0")
    case True
    have "length ps \<le> m" using Cons.prems by simp
    from Cons.IH [OF Cons.prems(1) this] True p show ?thesis
      by (simp add: findNonZeros_step_def)
  next
    case False
    let ?R = "elem_set R (length xs) 0 (real (i + 1))"
    have d: "data ?R = (xs @ [real (i + 1)]) @ replicate m' 0"
      using Cons.prems(1) m by (simp add: elem_set_def list_update_append)
    have l: "length ps \<le> m'" using Cons.prems(2) m by simp
    have upd: "(elem_set R k 0 v)\<lparr>data := ys\<rparr> = R\<lparr>data := ys\<rparr>" for ys k v
      by (simp add: elem_set_def)
    from Cons.IH [OF d l] False p m show ?thesis
      by (simp add: findNonZeros_step_def upd)
  qed
qed

text \<open>
  C10. For a matrix of \<open>r\<close> rows and \<open>c\<close> columns, \<open>m_findNonZeros\<close> returns a vector
  of \<open>r * c\<close> rows and one column: its first \<open>k\<close> entries are the row indices, counted
  from 1, of the \<open>k\<close> non-zero elements in the order of the row-by-row scan (the column
  index is dropped), and the other \<open>r * c - k\<close> entries are 0.
\<close>

theorem m_findNonZeros_result:
  "rows (m_findNonZeros M) = rows M * cols M \<and>
   cols (m_findNonZeros M) = 1 \<and>
   data (m_findNonZeros M) =
     map (\<lambda>(i, j). real (i + 1)) (nonzero_positions M)
     @ replicate (rows M * cols M - length (nonzero_positions M)) 0"
proof -
  let ?Z = "m_zeros (rows M * cols M) 1"
  have d: "data ?Z = [] @ replicate (rows M * cols M) 0"
    by (simp add: m_zeros_def)
  have l: "length (scan_order M) \<le> rows M * cols M"
    by (simp add: scan_order_def)
  have "m_findNonZeros M =
          fst (fold (\<lambda>(i, j). findNonZeros_step M i j) (scan_order M) (?Z, length ([] :: real list)))"
    by (simp add: m_findNonZeros_def scan_order_def fold_nested_product)
  also have "\<dots> = ?Z\<lparr>data := map (\<lambda>(i, j). real (i + 1)) (nonzero_positions M)
                  @ replicate (rows M * cols M - length (nonzero_positions M)) 0\<rparr>"
    using findNonZeros_fold [OF d l, of M] by (simp add: nonzero_positions_def)
  finally show ?thesis by (simp add: m_zeros_def)
qed

subsection \<open>Determinant and cofactor matrix\<close>

lemma det_fill_rows_dims:
  "rows (det_fill_rows M k c is A) = rows A \<and> cols (det_fill_rows M k c is A) = cols A"
  by (induction "is" arbitrary: A) (simp_all add: elem_set_def)

lemma det_fill_cols_dims:
  "rows (fst (det_fill_cols M j ks A c i)) = rows A \<and>
   cols (fst (det_fill_cols M j ks A c i)) = cols A"
  by (induction ks arbitrary: A c i) (simp_all add: det_fill_rows_dims)

lemma det_loop_returns:
  assumes rec: "\<And>B :: real matrix. rows B = rows A \<Longrightarrow> cols B = cols A \<Longrightarrow>
                  \<exists>r. m_determinant_fuel n B = Some r \<and> (cols B = rows B \<longrightarrow> (\<exists>d. r = Returned d))"
    and sq: "cols A = rows A"
  shows "\<exists>d. det_loop n M js A det i = Some (Returned d)"
  using assms
proof (induction js arbitrary: A det i)
  case Nil
  show ?case by simp
next
  case (Cons j js)
  obtain A' i' where f: "det_fill_cols M j [0..<cols M] A 0 i = (A', i')"
    by (cases "det_fill_cols M j [0..<cols M] A 0 i")
  have dims: "rows A' = rows A" "cols A' = cols A"
    using det_fill_cols_dims [of M j "[0..<cols M]" A 0 i] f by simp_all
  from Cons.prems(1) [OF dims] Cons.prems(2) dims
  obtain v where v: "m_determinant_fuel n A' = Some (Returned v)" by auto
  have "\<exists>d. det_loop n M js A' (det + real_of_int (det_sign i' j) * elem M 0 j * v) i'
              = Some (Returned d)"
  proof (rule Cons.IH)
    fix B :: "real matrix" assume "rows B = rows A'" "cols B = cols A'"
    then show "\<exists>r. m_determinant_fuel n B = Some r \<and> (cols B = rows B \<longrightarrow> (\<exists>d. r = Returned d))"
      using Cons.prems(1) [of B] dims by simp
  next
    show "cols A' = rows A'" using dims Cons.prems(2) by simp
  qed
  then show ?case by (simp add: f v)
qed

lemma m_determinant_fuel_returns:
  "rows M \<le> Suc n \<Longrightarrow>
   \<exists>r. m_determinant_fuel (Suc n) M = Some r \<and> (cols M = rows M \<longrightarrow> (\<exists>d. r = Returned d))"
proof (induction n arbitrary: M)
  case 0
  then have "rows M = 0 \<or> rows M = 1" by linarith
  then show ?case by auto
next
  case (Suc n)
  show ?case
  proof (cases "cols M \<noteq> rows M \<or> rows M < 3")
    case True
    then have "cols M \<noteq> rows M \<or> rows M = 0 \<or> rows M = 1 \<or> rows M = 2" by linarith
    then show ?thesis by auto
  next
    case False
    let ?A = "m_initialize (rows M - 1) (cols M - 1)
                (replicate ((rows M - 1) * (cols M - 1)) (0::real))"
    have A: "rows ?A = rows M - 1" "cols ?A = rows ?A"
      using False by (simp_all add: m_initialize_def)
    have "\<exists>d. det_loop (Suc n) M [0..<cols M] ?A 0 0 = Some (Returned d)"
    proof (rule det_loop_returns)
      fix B :: "real matrix" assume "rows B = rows ?A" "cols B = cols ?A"
      then have "rows B = rows M - 1" using A by simp
      then have "rows B \<le> Suc n" using Suc.prems by linarith
      then show "\<exists>r. m_determinant_fuel (Suc n) B = Some r \<and>
                    (cols B = rows B \<longrightarrow> (\<exists>d. r = Returned d))"
        by (rule Suc.IH)
    next
      show "cols ?A = rows ?A" by (rule A)
    qed
    with False show ?thesis by auto
  qed
qed

lemma m_determinant_returns:
  "\<exists>r. m_determinant M = Some r \<and> (cols M = rows M \<longrightarrow> (\<exists>d. r = Returned d))"
  unfolding m_determinant_def by (rule m_determinant_fuel_returns) simp

lemma cofactor_fill_cols_dims:
  "rows (cofactor_fill_cols M j r row cs A col) = rows A \<and>
   cols (cofactor_fill_cols M j r row cs A col) = cols A"
  by (induction cs arbitrary: A col) (auto simp: elem_set_def)

lemma cofactor_fill_rows_dims:
  "rows (cofactor_fill_rows M i j rs A row) = rows A \<and>
   cols (cofactor_fill_rows M i j rs A row) = cols A"
  by (induction rs arbitrary: A row) (auto simp: cofactor_fill_cols_dims)

lemma cofactor_cols_returns:
  "cols A = rows A \<Longrightarrow>
   \<exists>A' R'. cofactor_cols M i js A R = Some (Returned (A', R')) \<and> cols A' = rows A'"
proof (induction js arbitrary: A R)
  case Nil
  then show ?case by simp
next
  case (Cons j js)
  let ?A = "cofactor_fill_rows M i j [0..<rows M] A 0"
  have sq: "cols ?A = rows ?A"
    using Cons.prems by (simp add: cofactor_fill_rows_dims)
  with m_determinant_returns [of ?A]
  obtain v where v: "m_determinant ?A = Some (Returned v)" by auto
  from Cons.IH [OF sq] show ?case by (simp add: v Let_def)
qed

lemma cofactor_rows_returns:
  "cols A = rows A \<Longrightarrow> \<exists>R'. cofactor_rows M is A R = Some (Returned R')"
proof (induction "is" arbitrary: A R)
  case Nil
  show ?case by simp
next
  case (Cons i "is")
  from cofactor_cols_returns [OF Cons.prems, of M i "[0..<cols M]" R]
  obtain A' R' where s: "cofactor_cols M i [0..<cols M] A R = Some (Returned (A', R'))"
    and sq: "cols A' = rows A'" by blast
  from Cons.IH [OF sq] show ?case by (simp add: s)
qed

lemma m_cofactor_returns:
  "\<exists>r. m_cofactor M = Some r \<and> (cols M = rows M \<longrightarrow> (\<exists>R. r = Returned R))"
proof (cases "rows M = cols M")
  case False
  then show ?thesis by (simp add: m_cofactor_def)
next
  case True
  let ?A = "m_initialize (rows M - 1) (cols M - 1)
              (replicate ((rows M - 1) * (cols M - 1)) (0::real))"
  let ?R = "m_initialize (rows M) (cols M) (replicate (rows M * cols M) (0::real))"
  have "cols ?A = rows ?A" using True by (simp add: m_initialize_def)
  from cofactor_rows_returns [OF this, of M "[0..<rows M]" ?R]
  obtain R' where "cofactor_rows M [0..<rows M] ?A ?R = Some (Returned R')" by blast
  then have "m_cofactor M = Some (Returned R')"
    using True by (simp only: m_cofactor_def) simp
  then show ?thesis by simp
qed

text \<open>
  C9. The recursive determinant returns on every matrix, within \<open>rows M + 1\<close> nested
  calls, and with a value when the matrix is square: each recursive call is made on the
  scratch matrix of order \<open>rows M - 1\<close>. The cofactor matrix, which calls the determinant
  on its scratch matrix of order \<open>rows M - 1\<close>, returns as well.
\<close>

theorem m_determinant_terminates:
  "(\<exists>r. m_determinant_fuel (Suc (rows M)) M = Some r) \<and>
   (\<exists>r. m_cofactor M = Some r) \<and>
   (cols M = rows M \<longrightarrow>
      (\<exists>d. m_determinant M = Some (Returned d)) \<and> (\<exists>R. m_cofactor M = Some (Returned R))) \<and>
   rows (fst (det_fill_cols M j [0..<cols M]
                (m_initialize (rows M - 1) (cols M - 1) old) 0 i)) = rows M - 1 \<and>
   cols (fst (det_fill_cols M j [0..<cols M]
                (m_initialize (rows M - 1) (cols M - 1) old) 0 i)) = cols M - 1 \<and>
   rows (cofactor_fill_rows M i j [0..<rows M]
           (m_initialize (rows M - 1) (cols M - 1) old) 0) = rows M - 1 \<and>
   cols (cofactor_fill_rows M i j [0..<rows M]
           (m_initialize (rows M - 1) (cols M - 1) old) 0) = cols M - 1"
  using m_determinant_returns [of M] m_cofactor_returns [of M]
  by (auto simp: m_determinant_def det_fill_cols_dims cofactor_fill_rows_dims m_initialize_def)

theorem m_determinant_terminates_witness:
  "cols (m_identity 3) = rows (m_identity 3) \<and>
   (\<exists>d. m_determinant (m_identity 3) = Some (Returned d)) \<and>
   (\<exists>R. m_cofactor (m_identity 3) = Some (Returned R))"
proof -
  have sq: "cols (m_identity 3) = rows (m_identity 3)" by code_simp
  with m_determinant_terminates [of "m_identity 3"] show ?thesis by blast
qed

text \<open>
  C4. The determinant of the identity matrix of order 3 comes out as \<open>-1\<close>: the sign
  of each term of the expansion is computed from the loop variable \<open>i\<close>, which the
  filling loops leave at \<open>rows M\<close>, in place of the row 0 of the expansion. For an odd
  order every term has the wrong sign. The expansion with the sign \<open>(-1) ^ j\<close> gives 1.
\<close>

theorem m_determinant_identity_3:
  "m_determinant (m_identity 3) = Some (Returned (- 1)) \<and> det_spec 3 (m_identity 3) = 1"
  by code_simp

text \<open>
  C6. For the identity matrix of order 4, the minor without row 0 and column 0 is the
  identity matrix of order 3, whose determinant is 1, and \<open>(-1) ^ (0 + 0) = 1\<close>; the
  cofactor matrix holds \<open>-1\<close> at \<open>(0, 0)\<close>, the value that \<open>m_determinant\<close> returns for
  that minor.
\<close>

theorem m_cofactor_identity_4:
  "m_cofactor (m_identity 4) =
     Some (Returned \<lparr>rows = 4, cols = 4,
                     data = [- 1, 0, 0, 0, 0, - 1, 0, 0, 0, 0, - 1, 0, 0, 0, 0, - 1]\<rparr>) \<and>
   cofactor_fill_rows (m_identity 4) 0 0 [0..<4] (m_initialize 3 3 (replicate 9 0)) 0
     = m_identity 3 \<and>
   minor_spec (m_identity 4) 0 0 = m_identity 3 \<and>
   (- 1) ^ (0 + 0) * det_spec 3 (minor_spec (m_identity 4) 0 0) = 1"
  by code_simp

subsection \<open>Loops that assign every element\<close>

lemma update_all_cells:
  "distinct ps \<Longrightarrow> set ps \<subseteq> {..<length xs} \<Longrightarrow>
   fold (\<lambda>p ys. ys[p := F p (ys ! p)]) ps xs =
     map (\<lambda>q. if q \<in> set ps then F q (xs ! q) else xs ! q) [0..<length xs]"
proof (induction ps arbitrary: xs)
  case Nil
  show ?case by (simp add: map_nth)
next
  case (Cons p ps)
  let ?xs = "xs[p := F p (xs ! p)]"
  have "fold (\<lambda>p ys. ys[p := F p (ys ! p)]) ps ?xs =
          map (\<lambda>q. if q \<in> set ps then F q (?xs ! q) else ?xs ! q) [0..<length ?xs]"
    using Cons.prems by (intro Cons.IH) auto
  also have "\<dots> = map (\<lambda>q. if q \<in> set (p # ps) then F q (xs ! q) else xs ! q) [0..<length xs]"
    using Cons.prems by (auto simp: nth_list_update)
  finally show ?case by simp
qed


lemma cell_inj: "inj_on (cell M) (set (scan_order M))"
proof (rule inj_onI)
  fix p q assume p: "p \<in> set (scan_order M)" and q: "q \<in> set (scan_order M)"
    and e: "cell M p = cell M q"
  from p q have lt: "fst p < rows M" "fst q < rows M"
    by (auto simp: scan_order_def)
  from e have e': "snd p * rows M + fst p = snd q * rows M + fst q"
    by (simp add: cell_def)
  from arg_cong [OF e', of "\<lambda>x. x div rows M"] lt have "snd p = snd q" by simp
  moreover from arg_cong [OF e', of "\<lambda>x. x mod rows M"] lt have "fst p = fst q" by simp
  ultimately show "p = q" by (simp add: prod_eq_iff)
qed

lemma cell_range: "cell M ` set (scan_order M) = {..<rows M * cols M}"
proof (intro equalityI subsetI)
  fix x assume "x \<in> cell M ` set (scan_order M)"
  then obtain i j where x: "x = j * rows M + i" and i: "i < rows M" and j: "j < cols M"
    by (auto simp: scan_order_def cell_def)
  have "j * rows M + i < j * rows M + rows M" using i by simp
  also have "\<dots> = Suc j * rows M" by simp
  also have "\<dots> \<le> cols M * rows M" using j by (intro mult_le_mono1) simp
  finally show "x \<in> {..<rows M * cols M}" using x by (simp add: mult.commute)
next
  fix x assume "x \<in> {..<rows M * cols M}"
  then have x: "x < rows M * cols M" by simp
  then have r: "0 < rows M" by (cases "rows M") auto
  have "x div rows M < cols M" using x r by (simp add: less_mult_imp_div_less mult.commute)
  moreover have "x mod rows M < rows M" using r by simp
  ultimately have "(x mod rows M, x div rows M) \<in> set (scan_order M)"
    by (simp add: scan_order_def)
  moreover have "cell M (x mod rows M, x div rows M) = x" by (simp add: cell_def)
  ultimately show "x \<in> cell M ` set (scan_order M)" by force
qed

lemma scan_cells:
  "distinct (map (cell M) (scan_order M))" "set (map (cell M) (scan_order M)) = {..<rows M * cols M}"
proof -
  have "distinct (scan_order M)" by (simp add: scan_order_def distinct_product)
  then show "distinct (map (cell M) (scan_order M))"
    by (simp add: distinct_map cell_inj)
  show "set (map (cell M) (scan_order M)) = {..<rows M * cols M}"
    using cell_range [of M] by simp
qed

lemma fold_elem_set_cells:
  assumes "rows R = rows M"
  shows "fold (\<lambda>(i, j) R. elem_set R i j (F (cell M (i, j)) (elem R i j))) ps R =
           R\<lparr>data := fold (\<lambda>p ys. ys[p := F p (ys ! p)]) (map (cell M) ps) (data R)\<rparr>"
  using assms
proof (induction ps arbitrary: R)
  case Nil
  show ?case by simp
next
  case (Cons p ps)
  obtain i j where p: "p = (i, j)" by (cases p)
  let ?R = "elem_set R i j (F (cell M (i, j)) (elem R i j))"
  have r: "rows ?R = rows M" using Cons.prems by (simp add: elem_set_def)
  have d: "data ?R = (data R)[cell M p := F (cell M p) (data R ! cell M p)]"
    using Cons.prems by (simp add: elem_set_def elem_def cell_def p)
  have u: "?R\<lparr>data := ys\<rparr> = R\<lparr>data := ys\<rparr>" for ys by (simp add: elem_set_def)
  show ?case using Cons.IH [OF r] by (simp add: p d u)
qed

lemma map_every_element:
  assumes "wf_matrix M"
  shows "fold (\<lambda>i. fold (\<lambda>j R. elem_set R i j (g (elem R i j))) [0..<cols M]) [0..<rows M] M =
           M\<lparr>data := map g (data M)\<rparr>"
proof -
  let ?ps = "map (cell M) (scan_order M)"
  let ?F = "\<lambda>q::nat. g"
  have len: "length (data M) = rows M * cols M" using assms by (simp add: wf_matrix_def)
  have "fold (\<lambda>i. fold (\<lambda>j R. elem_set R i j (g (elem R i j))) [0..<cols M]) [0..<rows M] M =
          fold (\<lambda>(i, j) R. elem_set R i j (?F (cell M (i, j)) (elem R i j))) (scan_order M) M"
    by (simp add: fold_nested_product scan_order_def)
  also have "\<dots> = M\<lparr>data := fold (\<lambda>p ys. ys[p := ?F p (ys ! p)]) ?ps (data M)\<rparr>"
    by (rule fold_elem_set_cells) simp
  also have "fold (\<lambda>p ys. ys[p := ?F p (ys ! p)]) ?ps (data M) =
               map (\<lambda>q. if q \<in> set ?ps then ?F q (data M ! q) else data M ! q)
                 [0..<length (data M)]"
    by (rule update_all_cells) (simp_all add: scan_cells(1) cell_range len)
  also have "\<dots> = map g (data M)"
    by (rule nth_equalityI) (simp_all add: cell_range len)
  finally show ?thesis .
qed

subsection \<open>Min-max normalization\<close>

lemma normalize_minmax_fold:
  assumes "\<forall>p\<in>set ps. elem M (fst p) (snd p) = Fin (rd p)"
  shows "fold (\<lambda>(i, j). normalize_minmax M i j) ps (Fin a, Fin b) =
           (Fin (fold min (map rd ps) a), Fin (fold max (map rd ps) b))"
  using assms
proof (induction ps arbitrary: a b)
  case Nil
  show ?case by simp
next
  case (Cons p ps)
  obtain i j where p: "p = (i, j)" by (cases p)
  have e: "elem M i j = Fin (rd p)" using Cons.prems p by simp
  have s: "normalize_minmax M i j (Fin a, Fin b) = (Fin (min (rd p) a), Fin (max (rd p) b))"
    by (auto simp: normalize_minmax_def e min_def max_def Let_def)
  have "\<forall>q\<in>set ps. elem M (fst q) (snd q) = Fin (rd q)" using Cons.prems by simp
  from Cons.IH [OF this] show ?case by (simp add: p s)
qed

lemma scan_reads:
  assumes "wf_matrix M" and "data M = map Fin rs"
  shows "\<forall>p\<in>set (scan_order M). elem M (fst p) (snd p) = Fin (rs ! cell M p)"
    and "set (map (\<lambda>p. rs ! cell M p) (scan_order M)) = set rs"
proof -
  have len: "length rs = rows M * cols M" using assms by (simp add: wf_matrix_def)
  have in_range: "cell M p < length rs" if "p \<in> set (scan_order M)" for p
    using cell_range [of M] that len by auto
  show "\<forall>p\<in>set (scan_order M). elem M (fst p) (snd p) = Fin (rs ! cell M p)"
    using in_range assms(2) by (auto simp: elem_def cell_def)
  have "set (map (\<lambda>p. rs ! cell M p) (scan_order M)) = (\<lambda>q. rs ! q) ` (cell M ` set (scan_order M))"
    by (simp add: image_image)
  also have "\<dots> = (\<lambda>q. rs ! q) ` {..<length rs}" by (simp add: cell_range len)
  also have "\<dots> = set rs" by (auto simp: set_conv_nth)
  finally show "set (map (\<lambda>p. rs ! cell M p) (scan_order M)) = set rs" .
qed

lemma m_normalize_data:
  assumes wf: "wf_matrix M" and fin: "data M = map Fin rs" and ne: "rs \<noteq> []"
  shows "m_normalize M =
           M\<lparr>data := map (\<lambda>x. ddiv (dsub x (Fin (Min (set rs))))
                                     (dsub (Fin (Max (set rs))) (Fin (Min (set rs))))) (data M)\<rparr>"
proof -
  let ?vs = "map (\<lambda>p. rs ! cell M p) (scan_order M)"
  have e0: "elem M 0 0 = Fin (rs ! 0)" using fin ne by (simp add: elem_def)
  have r0: "rs ! 0 \<in> set rs" using ne by simp
  have "fold (\<lambda>i. fold (\<lambda>j. normalize_minmax M i j) [0..<cols M]) [0..<rows M]
          (elem M 0 0, elem M 0 0) =
        fold (\<lambda>(i, j). normalize_minmax M i j) (scan_order M) (Fin (rs ! 0), Fin (rs ! 0))"
    by (simp add: fold_nested_product scan_order_def e0)
  also have "\<dots> = (Fin (fold min ?vs (rs ! 0)), Fin (fold max ?vs (rs ! 0)))"
    by (rule normalize_minmax_fold) (rule scan_reads(1) [OF wf fin])
  also have "fold min ?vs (rs ! 0) = Min (set (rs ! 0 # ?vs))"
    by (simp only: Min.set_eq_fold)
  also have "set (rs ! 0 # ?vs) = set rs"
    using scan_reads(2) [OF wf fin] r0 by auto
  also have "fold max ?vs (rs ! 0) = Max (set (rs ! 0 # ?vs))"
    by (simp only: Max.set_eq_fold)
  also have "set (rs ! 0 # ?vs) = set rs"
    using scan_reads(2) [OF wf fin] r0 by auto
  finally have mm: "fold (\<lambda>i. fold (\<lambda>j. normalize_minmax M i j) [0..<cols M]) [0..<rows M]
          (elem M 0 0, elem M 0 0) = (Fin (Min (set rs)), Fin (Max (set rs)))" .
  let ?g = "\<lambda>x. ddiv (dsub x (Fin (Min (set rs)))) (dsub (Fin (Max (set rs))) (Fin (Min (set rs))))"
  have "m_normalize M =
          fold (\<lambda>i. fold (\<lambda>j R. elem_set R i j (?g (elem R i j))) [0..<cols M]) [0..<rows M] M"
    unfolding m_normalize_def mm by (simp add: normalize_elem_def [abs_def])
  also have "\<dots> = M\<lparr>data := map ?g (data M)\<rparr>"
    by (rule map_every_element [OF wf])
  finally show ?thesis .
qed

lemma overflow_threshold_gt_1: "1 < overflow_threshold"
  by (simp add: overflow_threshold_def)

lemma rounded_Fin:
  "- overflow_threshold < x \<Longrightarrow> x < overflow_threshold \<Longrightarrow> rounded x = Fin x"
  by (simp add: rounded_def)

text \<open>
  C8, as amended. For a matrix of finite elements that are not all equal and whose
  largest difference \<open>max - min\<close> is below the magnitude at which a double overflows,
  \<open>m_normalize\<close> keeps the dimensions and replaces every element by a finite value
  between 0 and 1: 0 where the element was the minimum and 1 where it was the maximum.
\<close>

theorem m_normalize_range:
  assumes "wf_matrix M" and "data M = map Fin rs" and "\<exists>x\<in>set rs. \<exists>y\<in>set rs. x \<noteq> y"
    and "Max (set rs) - Min (set rs) < overflow_threshold"
  shows "rows (m_normalize M) = rows M \<and> cols (m_normalize M) = cols M \<and>
         length (data (m_normalize M)) = length rs \<and>
         (\<forall>k<length rs. \<exists>y. data (m_normalize M) ! k = Fin y \<and> 0 \<le> y \<and> y \<le> 1 \<and>
            (rs ! k = Min (set rs) \<longrightarrow> y = 0) \<and> (rs ! k = Max (set rs) \<longrightarrow> y = 1))"
proof -
  from assms(3) have ne: "rs \<noteq> []" by auto
  let ?mn = "Min (set rs)" and ?mx = "Max (set rs)"
  have lt: "?mn < ?mx"
  proof -
    from assms(3) obtain x y where xy: "x \<in> set rs" "y \<in> set rs" "x \<noteq> y" by blast
    then have "?mn \<le> x" "?mn \<le> y" "x \<le> ?mx" "y \<le> ?mx" by simp_all
    with xy(3) show ?thesis by linarith
  qed
  have el: "ddiv (dsub (Fin x) (Fin ?mn)) (dsub (Fin ?mx) (Fin ?mn)) =
              Fin ((x - ?mn) / (?mx - ?mn))" if x: "x \<in> set rs" for x
  proof -
    from x have b: "?mn \<le> x" "x \<le> ?mx" by simp_all
    have n: "dsub (Fin x) (Fin ?mn) = Fin (x - ?mn)"
      using b assms(4) overflow_threshold_gt_1 by (simp add: dsub_def rounded_Fin)
    have m: "dsub (Fin ?mx) (Fin ?mn) = Fin (?mx - ?mn)"
      using lt assms(4) overflow_threshold_gt_1 by (simp add: dsub_def rounded_Fin)
    have q0: "0 \<le> (x - ?mn) / (?mx - ?mn)" using b lt by simp
    have q1: "(x - ?mn) / (?mx - ?mn) \<le> 1" using b lt by simp
    have "rounded ((x - ?mn) / (?mx - ?mn)) = Fin ((x - ?mn) / (?mx - ?mn))"
      using q0 q1 overflow_threshold_gt_1 by (intro rounded_Fin) linarith+
    then show ?thesis using lt by (simp add: n m)
  qed
  have d: "data (m_normalize M) = map (\<lambda>x. Fin ((x - ?mn) / (?mx - ?mn))) rs"
    by (simp add: m_normalize_data [OF assms(1,2) ne] assms(2) el)
  have r: "rows (m_normalize M) = rows M" "cols (m_normalize M) = cols M"
    by (simp_all add: m_normalize_data [OF assms(1,2) ne])
  have "\<exists>y. data (m_normalize M) ! k = Fin y \<and> 0 \<le> y \<and> y \<le> 1 \<and>
            (rs ! k = ?mn \<longrightarrow> y = 0) \<and> (rs ! k = ?mx \<longrightarrow> y = 1)" if k: "k < length rs" for k
  proof -
    have m: "rs ! k \<in> set rs" using k by simp
    then have b: "?mn \<le> rs ! k" "rs ! k \<le> ?mx" by simp_all
    have "data (m_normalize M) ! k = Fin ((rs ! k - ?mn) / (?mx - ?mn))"
      using k by (simp add: d)
    moreover have "0 \<le> (rs ! k - ?mn) / (?mx - ?mn)" using b lt by simp
    moreover have "(rs ! k - ?mn) / (?mx - ?mn) \<le> 1" using b lt by simp
    moreover have "rs ! k = ?mx \<longrightarrow> (rs ! k - ?mn) / (?mx - ?mn) = 1" using lt by simp
    ultimately show ?thesis by simp
  qed
  then show ?thesis using r d by simp
qed

theorem m_normalize_range_witness:
  "wf_matrix \<lparr>rows = 1, cols = 2, data = [Fin 2, Fin 4]\<rparr> \<and>
   (\<exists>x\<in>set [2, 4 :: real]. \<exists>y\<in>set [2, 4]. x \<noteq> y) \<and>
   Max (set [2, 4 :: real]) - Min (set [2, 4]) < overflow_threshold \<and>
   data (m_normalize \<lparr>rows = 1, cols = 2, data = [Fin 2, Fin 4]\<rparr>) ! 0 = Fin 0 \<and>
   data (m_normalize \<lparr>rows = 1, cols = 2, data = [Fin 2, Fin 4]\<rparr>) ! 1 = Fin 1"
proof -
  let ?M = "\<lparr>rows = 1, cols = 2, data = [Fin 2, Fin 4]\<rparr>"
  have w: "wf_matrix ?M" by (simp add: wf_matrix_def)
  have f: "data ?M = map Fin [2, 4]" by simp
  have n: "\<exists>x\<in>set [2, 4 :: real]. \<exists>y\<in>set [2, 4]. x \<noteq> y"
    by (rule bexI [of _ 2], rule bexI [of _ 4]) simp_all
  have mn: "[2, 4 :: real] ! 0 = Min (set [2, 4])" and mx: "[2, 4 :: real] ! 1 = Max (set [2, 4])"
    by simp_all
  have o: "Max (set [2, 4 :: real]) - Min (set [2, 4]) < overflow_threshold"
    by (simp add: overflow_threshold_def)
  note r = m_normalize_range [OF w f n o, THEN conjunct2, THEN conjunct2, THEN conjunct2]
  from r [rule_format, of 0] mn have "data (m_normalize ?M) ! 0 = Fin 0" by auto
  moreover from r [rule_format, of 1] mx have "data (m_normalize ?M) ! 1 = Fin 1" by auto
  ultimately show ?thesis using w n o by blast
qed

theorem m_normalize_constant_counterexample:
  "m_normalize \<lparr>rows = 1, cols = 1, data = [Fin 5]\<rparr> = \<lparr>rows = 1, cols = 1, data = [NaN]\<rparr>"
  by (simp add: m_normalize_def normalize_minmax_def normalize_elem_def elem_def elem_set_def
        dsub_def rounded_def overflow_threshold_def Let_def)

text \<open>
  The hypothesis on the largest difference is needed: for the two finite elements
  \<open>- 2 ^ 1023\<close> and \<open>2 ^ 1023\<close> the difference \<open>max - min\<close> overflows to the infinity,
  and the maximum becomes the quotient of two infinities, the not-a-number.
\<close>

lemma m_normalize_overflow:
  "m_normalize \<lparr>rows = 1, cols = 2, data = [Fin (- (2 ^ 1023)), Fin (2 ^ 1023)]\<rparr> =
     \<lparr>rows = 1, cols = 2, data = [Fin 0, NaN]\<rparr>"
proof -
  let ?M = "\<lparr>rows = 1, cols = 2, data = [Fin (- (2 ^ 1023)), Fin (2 ^ 1023)]\<rparr>"
  have w: "wf_matrix ?M" by (simp add: wf_matrix_def)
  have f: "data ?M = map Fin [- (2 ^ 1023), 2 ^ 1023]" by simp
  show ?thesis
    using m_normalize_data [OF w f] by (simp add: dsub_def rounded_def overflow_threshold_def)
qed

subsection \<open>Elementwise binary operations\<close>

text \<open>
  C7, as amended. When the shapes of the operands differ, the three operations abort
  the process at their assertion. When the shapes agree, the elementwise division
  returns a pointer that was not allocated before, and the heap holds the operands
  as before.
\<close>

theorem m_dot_ops_shapes:
  assumes "a < length h" and "b < length h"
  shows "(\<not> (rows (h ! a) = rows (h ! b) \<and> cols (h ! a) = cols (h ! b)) \<longrightarrow>
            m_dot_subtract old h a b = Aborted \<and> m_dot_add old h a b = Aborted \<and>
            m_dot_division old h a b = Aborted) \<and>
         (rows (h ! a) = rows (h ! b) \<and> cols (h ! a) = cols (h ! b) \<longrightarrow>
            (\<exists>r h'. m_dot_division old h a b = Returned (r, h') \<and> \<not> r < length h \<and>
                     r < length h' \<and> h' ! a = h ! a \<and> h' ! b = h ! b \<and>
                     (\<forall>p<length h. h' ! p = h ! p)))"
  using assms
  by (simp add: m_dot_subtract_def m_dot_add_def m_dot_division_def dot_op_def Let_def
        nth_append)

theorem m_dot_ops_shapes_witness:
  "(0::nat) < length [\<lparr>rows = 1, cols = 1, data = [Fin 6]\<rparr>, \<lparr>rows = 1, cols = 1, data = [Fin 3]\<rparr>] \<and>
   (1::nat) < length [\<lparr>rows = 1, cols = 1, data = [Fin 6]\<rparr>, \<lparr>rows = 1, cols = 1, data = [Fin 3]\<rparr>] \<and>
   (\<exists>r h'. m_dot_division [NaN] [\<lparr>rows = 1, cols = 1, data = [Fin 6]\<rparr>,
                                  \<lparr>rows = 1, cols = 1, data = [Fin 3]\<rparr>] 0 1 = Returned (r, h') \<and>
            \<not> r < 2 \<and>
            h' ! 0 = \<lparr>rows = 1, cols = 1, data = [Fin 6]\<rparr> \<and>
            h' ! 1 = \<lparr>rows = 1, cols = 1, data = [Fin 3]\<rparr>)"
proof -
  let ?h = "[\<lparr>rows = 1, cols = 1, data = [Fin 6]\<rparr>, \<lparr>rows = 1, cols = 1, data = [Fin 3]\<rparr>]"
  have a: "0 < length ?h" and b: "1 < length ?h" by simp_all
  have s: "rows (?h ! 0) = rows (?h ! 1) \<and> cols (?h ! 0) = cols (?h ! 1)" by simp
  from m_dot_ops_shapes [OF a b, of "[NaN]"] s
  obtain r h' where "m_dot_division [NaN] ?h 0 1 = Returned (r, h')" "\<not> r < length ?h"
    "h' ! 0 = ?h ! 0" "h' ! 1 = ?h ! 1" by blast
  then have "m_dot_division [NaN] ?h 0 1 = Returned (r, h') \<and> \<not> r < 2 \<and>
             h' ! 0 = \<lparr>rows = 1, cols = 1, data = [Fin 6]\<rparr> \<and>
             h' ! 1 = \<lparr>rows = 1, cols = 1, data = [Fin 3]\<rparr>" by simp
  then show ?thesis using a b by blast
qed

theorem m_dot_add_mismatch_counterexample:
  "m_dot_add [] [\<lparr>rows = 1, cols = 1, data = [Fin 1]\<rparr>,
                 \<lparr>rows = 1, cols = 2, data = [Fin 1, Fin 2]\<rparr>] 0 1 = Aborted \<and>
   m_dot_add [] [\<lparr>rows = 1, cols = 1, data = [Fin 1]\<rparr>,
                 \<lparr>rows = 1, cols = 2, data = [Fin 1, Fin 2]\<rparr>] 0 1 \<noteq> Reported DimensionMismatch"
  by (simp add: m_dot_add_def dot_op_def)

subsection \<open>Nearest training column\<close>

lemma min_from_first:
  "min_from (b, bi) i xs = (v, k) \<Longrightarrow>
     (v = b \<and> k = bi \<and> (\<forall>l<length xs. b \<le> xs ! l)) \<or>
     (\<exists>j<length xs. k = i + j \<and> v = xs ! j \<and> v < b \<and>
         (\<forall>l<j. v < xs ! l) \<and> (\<forall>l<length xs. v \<le> xs ! l))"
proof (induction xs arbitrary: b bi i)
  case Nil
  then show ?case by simp
next
  case (Cons x xs)
  show ?case
  proof (cases "x < b")
    case True
    with Cons.prems have m: "min_from (x, i) (i + 1) xs = (v, k)" by simp
    from Cons.IH [OF m] show ?thesis
    proof
      assume a: "v = x \<and> k = i \<and> (\<forall>l<length xs. x \<le> xs ! l)"
      have "\<forall>l<length (x # xs). v \<le> (x # xs) ! l"
        using a by (auto simp: nth_Cons split: nat.splits)
      with a True have "0 < length (x # xs) \<and> k = i + 0 \<and> v = (x # xs) ! 0 \<and> v < b \<and>
          (\<forall>l<0. v < (x # xs) ! l) \<and> (\<forall>l<length (x # xs). v \<le> (x # xs) ! l)" by simp
      then show ?thesis by blast
    next
      assume "\<exists>j<length xs. k = i + 1 + j \<and> v = xs ! j \<and> v < x \<and>
                (\<forall>l<j. v < xs ! l) \<and> (\<forall>l<length xs. v \<le> xs ! l)"
      then obtain j where j: "j < length xs" "k = i + 1 + j" "v = xs ! j" "v < x"
        "\<forall>l<j. v < xs ! l" "\<forall>l<length xs. v \<le> xs ! l" by blast
      have "Suc j < length (x # xs) \<and> k = i + Suc j \<and> v = (x # xs) ! Suc j \<and> v < b \<and>
          (\<forall>l<Suc j. v < (x # xs) ! l) \<and> (\<forall>l<length (x # xs). v \<le> (x # xs) ! l)"
        using j True by (auto simp: nth_Cons split: nat.splits)
      then show ?thesis by blast
    qed
  next
    case False
    with Cons.prems have m: "min_from (b, bi) (i + 1) xs = (v, k)" by simp
    from Cons.IH [OF m] show ?thesis
    proof
      assume a: "v = b \<and> k = bi \<and> (\<forall>l<length xs. b \<le> xs ! l)"
      then have "\<forall>l<length (x # xs). b \<le> (x # xs) ! l"
        using False by (auto simp: nth_Cons split: nat.splits)
      with a show ?thesis by blast
    next
      assume "\<exists>j<length xs. k = i + 1 + j \<and> v = xs ! j \<and> v < b \<and>
                (\<forall>l<j. v < xs ! l) \<and> (\<forall>l<length xs. v \<le> xs ! l)"
      then obtain j where j: "j < length xs" "k = i + 1 + j" "v = xs ! j" "v < b"
        "\<forall>l<j. v < xs ! l" "\<forall>l<length xs. v \<le> xs ! l" by blast
      have "Suc j < length (x # xs) \<and> k = i + Suc j \<and> v = (x # xs) ! Suc j \<and> v < b \<and>
          (\<forall>l<Suc j. v < (x # xs) ! l) \<and> (\<forall>l<length (x # xs). v \<le> (x # xs) ! l)"
        using j False by (auto simp: nth_Cons split: nat.splits)
      then show ?thesis by blast
    qed
  qed
qed

lemma matlab_min_first:
  assumes "xs \<noteq> []"
  shows "\<exists>v k. matlab_min xs = Some (v, k) \<and> 1 \<le> k \<and> k \<le> length xs \<and> v = xs ! (k - 1) \<and>
           (\<forall>l<length xs. v \<le> xs ! l) \<and> (\<forall>l<k - 1. v < xs ! l)"
proof -
  from assms obtain x xs' where xs: "xs = x # xs'" by (cases xs) auto
  obtain v k where m: "min_from (x, 1) 2 xs' = (v, k)" by (cases "min_from (x, 1) 2 xs'")
  from min_from_first [OF m]
  have "1 \<le> k \<and> k \<le> length xs \<and> v = xs ! (k - 1) \<and>
           (\<forall>l<length xs. v \<le> xs ! l) \<and> (\<forall>l<k - 1. v < xs ! l)"
  proof
    assume a: "v = x \<and> k = 1 \<and> (\<forall>l<length xs'. x \<le> xs' ! l)"
    then show ?thesis by (auto simp: xs nth_Cons split: nat.splits)
  next
    assume "\<exists>j<length xs'. k = 2 + j \<and> v = xs' ! j \<and> v < x \<and>
              (\<forall>l<j. v < xs' ! l) \<and> (\<forall>l<length xs'. v \<le> xs' ! l)"
    then obtain j where j: "j < length xs'" "k = 2 + j" "v = xs' ! j" "v < x"
      "\<forall>l<j. v < xs' ! l" "\<forall>l<length xs'. v \<le> xs' ! l" by blast
    then show ?thesis by (auto simp: xs nth_Cons split: nat.splits)
  qed
  moreover have "matlab_min xs = Some (v, k)" using m by (simp add: matlab_min_def xs)
  ultimately show ?thesis by blast
qed

lemma norm2_squared: "(norm2 (map2 (-) x y))\<^sup>2 = sq_distance x y"
proof -
  have "(0::real) \<le> (\<Sum>z\<leftarrow>map2 (-) x y. z\<^sup>2)" by (rule sum_list_nonneg) auto
  moreover have "(\<Sum>z\<leftarrow>map2 (-) x y. z\<^sup>2) = (\<Sum>(a, b)\<leftarrow>zip x y. (a - b)\<^sup>2)"
    by (simp add: map_map comp_def case_prod_unfold)
  ultimately show ?thesis by (simp add: norm2_def sq_distance_def)
qed

text \<open>
  C5. When the dimensions agree and there is a training column, \<open>Recognition\<close> reports
  a training column whose squared Euclidean distance to the projected test image is
  minimal, and every training column of a lower index is strictly farther.
\<close>

theorem Recognition_nearest:
  assumes "rows A = rows Eigenfaces" and "length m = rows Eigenfaces"
    and "length InImage = length m" and "0 < cols A"
  shows "\<exists>k. Recognition InImage m A Eigenfaces = Name k \<and> 1 \<le> k \<and> k \<le> cols A \<and>
           (\<forall>i. 1 \<le> i \<and> i \<le> cols A \<longrightarrow>
                training_distance InImage m A Eigenfaces k
                  \<le> training_distance InImage m A Eigenfaces i) \<and>
           (\<forall>i. 1 \<le> i \<and> i < k \<longrightarrow>
                training_distance InImage m A Eigenfaces k
                  < training_distance InImage m A Eigenfaces i)"
proof -
  let ?d = "\<lambda>i. training_distance InImage m A Eigenfaces (Suc i)"
  let ?E = "map ?d [0..<cols A]"
  have E: "map (\<lambda>i. (norm2 (map2 (-) (mtimes_tr Eigenfaces (map2 (-) InImage m))
                 (map (\<lambda>i. mtimes_tr Eigenfaces (column A i)) [0..<cols A] ! i)))\<^sup>2)
             [0..<cols A] = ?E"
    by (rule map_cong) (simp_all add: norm2_squared training_distance_def)
  have ne: "?E \<noteq> []" using assms(4) by simp
  from matlab_min_first [OF ne] obtain v k where
    m: "matlab_min ?E = Some (v, k)" and k: "1 \<le> k" "k \<le> cols A"
    and le: "\<forall>l<cols A. v \<le> ?E ! l" and lt: "\<forall>l<k - 1. v < ?E ! l"
    and v: "v = ?E ! (k - 1)" by auto
  have vk: "v = training_distance InImage m A Eigenfaces k" using v k by simp
  have r: "Recognition InImage m A Eigenfaces = Name k"
    using assms(1-3) by (simp add: Recognition_def Let_def E m)
  have "training_distance InImage m A Eigenfaces k \<le> training_distance InImage m A Eigenfaces i"
    if "1 \<le> i" "i \<le> cols A" for i
    using le [rule_format, of "i - 1"] that vk by simp
  moreover have "training_distance InImage m A Eigenfaces k < training_distance InImage m A Eigenfaces i"
    if "1 \<le> i" "i < k" for i
    using lt [rule_format, of "i - 1"] that vk k by simp
  ultimately show ?thesis using r k by blast
qed

theorem Recognition_nearest_witness:
  "rows \<lparr>rows = 1, cols = 3, data = [5, 1, 1 :: real]\<rparr> = rows \<lparr>rows = 1, cols = 1, data = [2 :: real]\<rparr> \<and>
   length [0 :: real] = rows \<lparr>rows = 1, cols = 1, data = [2 :: real]\<rparr> \<and>
   length [1 :: real] = length [0 :: real] \<and>
   0 < cols \<lparr>rows = 1, cols = 3, data = [5, 1, 1 :: real]\<rparr> \<and>
   (\<exists>k. Recognition [1] [0] \<lparr>rows = 1, cols = 3, data = [5, 1, 1]\<rparr>
            \<lparr>rows = 1, cols = 1, data = [2]\<rparr> = Name k \<and> 1 \<le> k \<and> k \<le> 3)"
proof -
  let ?A = "\<lparr>rows = 1, cols = 3, data = [5, 1, 1 :: real]\<rparr>"
  let ?E = "\<lparr>rows = 1, cols = 1, data = [2 :: real]\<rparr>"
  have a: "rows ?A = rows ?E" and b: "length [0 :: real] = rows ?E"
    and c: "length [1 :: real] = length [0 :: real]" and d: "0 < cols ?A" by simp_all
  from Recognition_nearest [OF a b c d]
  obtain k where "Recognition [1] [0] ?A ?E = Name k" "1 \<le> k" "k \<le> cols ?A" by blast
  then have "\<exists>k. Recognition [1] [0] ?A ?E = Name k \<and> 1 \<le> k \<and> k \<le> 3" by auto
  then show ?thesis using a b c d by blast
qed

subsection \<open>Binary format\<close>

lemma length_le_bytes: "length (le_bytes k n) = k"
  by (induction k arbitrary: n) simp_all

lemma le_value_le_bytes: "le_value (le_bytes k n) = n mod 256 ^ k"
proof (induction k arbitrary: n)
  case 0
  show ?case by simp
next
  case (Suc k)
  have "unat (of_nat (n mod 256) :: byte) = n mod 256"
    by (simp add: unat_of_nat)
  then have "le_value (le_bytes (Suc k) n) = n mod 256 + 256 * ((n div 256) mod 256 ^ k)"
    by (simp add: Suc.IH)
  also have "\<dots> = n mod 256 ^ Suc k"
    by (simp add: mod_mult2_eq)
  finally show ?case .
qed

lemma read_int_int_bytes:
  "n < 2 ^ 31 \<Longrightarrow> read_int (int_bytes n @ bs) = Some (n, bs)"
  by (simp add: read_int_def int_bytes_def length_le_bytes le_value_le_bytes)

lemma read_doubles_double_bytes:
  "read_doubles (length ds) (concat (map double_bytes ds) @ bs) = Some (ds, bs)"
proof (induction ds)
  case Nil
  show ?case by simp
next
  case (Cons d ds)
  have "unat d < 2 ^ 64" using unsigned_less [of d, where 'a = nat] by simp
  then have "unat d mod 256 ^ 8 = unat d" by simp
  then have v: "(of_nat (le_value (double_bytes d)) :: 64 word) = d"
    by (simp add: double_bytes_def le_value_le_bytes)
  have l: "length (double_bytes d) = 8" by (simp add: double_bytes_def length_le_bytes)
  show ?case by (simp add: l v Cons.IH)
qed

lemma m_fread_m_fwrite:
  assumes "wf_matrix M" and "rows M < 2 ^ 31" and "cols M < 2 ^ 31"
  shows "m_fread (m_fwrite M @ bs) = Some (M, bs)"
proof -
  have len: "length (data M) = rows M * cols M" using assms(1) by (simp add: wf_matrix_def)
  have "read_doubles (rows M * cols M) (concat (map double_bytes (data M)) @ bs) = Some (data M, bs)"
    using read_doubles_double_bytes [of "data M" bs] by (simp add: len)
  then show ?thesis
    using assms(2,3) by (simp add: m_fread_def m_fwrite_def read_int_int_bytes len)
qed

subsection \<open>Text format\<close>

lemma numbers_append: "numbers (ts @ us) = numbers ts @ numbers us"
  by (induction ts rule: numbers.induct) simp_all

lemma skip_space_numbers:
  "numbers ts = x # u \<Longrightarrow> \<exists>rest. skip_space ts = Number x # rest \<and> numbers rest = u"
  by (induction ts rule: numbers.induct) simp_all

lemma scan_lf_numbers:
  "numbers ts = x # u \<Longrightarrow> \<exists>rest. scan_lf ts = Some (x, rest) \<and> numbers rest = u"
  using skip_space_numbers [of ts x u] by (auto simp: scan_lf_def)

lemma scan_d_numbers:
  "numbers ts = of_nat n # u \<Longrightarrow> \<exists>rest. scan_d ts = Some (n, rest) \<and> numbers rest = u"
  using skip_space_numbers [of ts "of_nat n" u] by (auto simp: scan_d_def)

lemma numbers_fprint_row:
  "numbers (fprint_row M i) = map (\<lambda>j. lg (elem M i j)) [0..<cols M]"
proof -
  have "numbers (concat (map (\<lambda>j. [Number (f j), Space]) js)) = map f js" for f js
    by (induction js) simp_all
  then show ?thesis by (simp add: fprint_row_def numbers_append)
qed

lemma numbers_m_fprint:
  "numbers (m_fprint M @ ts) =
     of_nat (rows M) # of_nat (cols M) # map (\<lambda>(i, j). lg (elem M i j)) (scan_order M) @ numbers ts"
proof -
  have "numbers (concat (map (fprint_row M) is)) =
          map (\<lambda>(i, j). lg (elem M i j)) (List.product is [0..<cols M])" for "is"
    by (induction "is") (simp_all add: numbers_append numbers_fprint_row comp_def)
  then show ?thesis by (simp add: m_fprint_def numbers_append scan_order_def)
qed

lemma fscan_elems:
  "numbers ts = map v ps @ u \<Longrightarrow>
   \<exists>ts'. fold (\<lambda>(i, j). fscan_elem i j) ps (Some (R, ts)) =
            Some (fold (\<lambda>(i, j) R. elem_set R i j (v (i, j))) ps R, ts') \<and> numbers ts' = u"
proof (induction ps arbitrary: R ts)
  case Nil
  then show ?case by simp
next
  case (Cons p ps)
  obtain i j where p: "p = (i, j)" by (cases p)
  from Cons.prems have "numbers ts = v p # (map v ps @ u)" by simp
  from scan_lf_numbers [OF this] obtain rest where
    s: "scan_lf ts = Some (v p, rest)" and n: "numbers rest = map v ps @ u" by blast
  from Cons.IH [OF n, of "elem_set R i j (v p)"] show ?case
    by (simp add: p fscan_elem_def s)
qed

lemma assign_every_element:
  assumes "rows R = rows M" and "cols R = cols M" and "wf_matrix R"
  shows "fold (\<lambda>(i, j) R. elem_set R i j (h (cell M (i, j)))) (scan_order M) R =
           R\<lparr>data := map h [0..<rows M * cols M]\<rparr>"
proof -
  let ?ps = "map (cell M) (scan_order M)"
  let ?F = "\<lambda>(q::nat) (old::'a). h q"
  have len: "length (data R) = rows M * cols M" using assms by (simp add: wf_matrix_def)
  have "fold (\<lambda>(i, j) R. elem_set R i j (h (cell M (i, j)))) (scan_order M) R =
          R\<lparr>data := fold (\<lambda>p ys. ys[p := ?F p (ys ! p)]) ?ps (data R)\<rparr>"
    using fold_elem_set_cells [OF assms(1), of ?F "scan_order M"] by simp
  also have "fold (\<lambda>p ys. ys[p := ?F p (ys ! p)]) ?ps (data R) =
               map (\<lambda>q. if q \<in> set ?ps then ?F q (data R ! q) else data R ! q)
                 [0..<length (data R)]"
    by (rule update_all_cells) (simp_all add: scan_cells(1) cell_range len)
  also have "\<dots> = map h [0..<rows M * cols M]"
    by (rule nth_equalityI) (simp_all add: cell_range len)
  finally show ?thesis .
qed

lemma m_fscan_m_fprint:
  assumes "wf_matrix M" and "length old = rows M * cols M"
  shows "\<exists>ts'. m_fscan old (m_fprint M @ ts) = Some (M\<lparr>data := map lg (data M)\<rparr>, ts') \<and>
               numbers ts' = numbers ts"
proof -
  let ?v = "\<lambda>(i, j). lg (elem M i j)"
  let ?R = "m_initialize (rows M) (cols M) old"
  have len: "length (data M) = rows M * cols M" using assms(1) by (simp add: wf_matrix_def)
  from scan_d_numbers [OF numbers_m_fprint] obtain ts1 where
    r: "scan_d (m_fprint M @ ts) = Some (rows M, ts1)"
    and n1: "numbers ts1 = of_nat (cols M) # map ?v (scan_order M) @ numbers ts" by blast
  from scan_d_numbers [OF n1] obtain ts2 where
    c: "scan_d ts1 = Some (cols M, ts2)"
    and n2: "numbers ts2 = map ?v (scan_order M) @ numbers ts" by blast
  from fscan_elems [OF n2, of ?R] obtain ts' where
    f: "fold (\<lambda>(i, j). fscan_elem i j) (scan_order M) (Some (?R, ts2)) =
          Some (fold (\<lambda>(i, j) R. elem_set R i j (?v (i, j))) (scan_order M) ?R, ts')"
    and n3: "numbers ts' = numbers ts" by blast
  have "fold (\<lambda>(i, j) R. elem_set R i j (?v (i, j))) (scan_order M) ?R =
          fold (\<lambda>(i, j) R. elem_set R i j (lg (data M ! cell M (i, j)))) (scan_order M) ?R"
    by (simp add: elem_def cell_def)
  also have "\<dots> = ?R\<lparr>data := map (\<lambda>q. lg (data M ! q)) [0..<rows M * cols M]\<rparr>"
    by (rule assign_every_element) (simp_all add: m_initialize_def wf_matrix_def assms(2))
  also have "map (\<lambda>q. lg (data M ! q)) [0..<rows M * cols M] = map lg (data M)"
    by (rule nth_equalityI) (simp_all add: len)
  also have "?R\<lparr>data := map lg (data M)\<rparr> = M\<lparr>data := map lg (data M)\<rparr>"
    by (simp add: m_initialize_def)
  finally have e: "fold (\<lambda>(i, j) R. elem_set R i j (?v (i, j))) (scan_order M) ?R =
                     M\<lparr>data := map lg (data M)\<rparr>" .
  have "m_fscan old (m_fprint M @ ts) =
          fold (\<lambda>(i, j). fscan_elem i j) (scan_order M) (Some (?R, ts2))"
    by (simp add: m_fscan_def r c fold_nested_product scan_order_def)
  then have "m_fscan old (m_fprint M @ ts) = Some (M\<lparr>data := map lg (data M)\<rparr>, ts')"
    by (simp only: f e)
  with n3 show ?thesis by blast
qed

text \<open>
  C2, as amended. Reading back what \<open>m_fwrite\<close> wrote gives the matrix itself, element
  for element, and leaves the rest of the stream. Reading back what \<open>m_fprint\<close> wrote
  gives a matrix of the same dimensions whose elements are those of the original
  rounded to six significant digits.
\<close>

theorem serialization_round_trip:
  assumes "wf_matrix B" and "rows B < 2 ^ 31" and "cols B < 2 ^ 31"
    and "wf_matrix T" and "length old = rows T * cols T"
  shows "m_fread (m_fwrite B @ bs) = Some (B, bs) \<and>
         (\<exists>ts'. m_fscan old (m_fprint T @ ts) = Some (T\<lparr>data := map lg (data T)\<rparr>, ts') \<and>
                numbers ts' = numbers ts)"
  using m_fread_m_fwrite [OF assms(1-3)] m_fscan_m_fprint [OF assms(4,5)] by simp

theorem serialization_round_trip_witness:
  "wf_matrix \<lparr>rows = 1, cols = 2, data = [5, 7 :: 64 word]\<rparr> \<and>
   rows \<lparr>rows = 1, cols = 2, data = [5, 7 :: 64 word]\<rparr> < 2 ^ 31 \<and>
   cols \<lparr>rows = 1, cols = 2, data = [5, 7 :: 64 word]\<rparr> < 2 ^ 31 \<and>
   wf_matrix \<lparr>rows = 2, cols = 1, data = [1, 2 :: real]\<rparr> \<and>
   length [0, 0 :: real] = rows \<lparr>rows = 2, cols = 1, data = [1, 2 :: real]\<rparr>
                             * cols \<lparr>rows = 2, cols = 1, data = [1, 2 :: real]\<rparr> \<and>
   m_fread (m_fwrite \<lparr>rows = 1, cols = 2, data = [5, 7]\<rparr> @ []) =
     Some (\<lparr>rows = 1, cols = 2, data = [5, 7]\<rparr>, []) \<and>
   (\<exists>ts'. m_fscan [0, 0] (m_fprint \<lparr>rows = 2, cols = 1, data = [1, 2]\<rparr> @ []) =
            Some (\<lparr>rows = 2, cols = 1, data = [1, 2]\<rparr>\<lparr>data := map lg [1, 2]\<rparr>, ts'))"
proof -
  let ?B = "\<lparr>rows = 1, cols = 2, data = [5, 7 :: 64 word]\<rparr>"
  let ?T = "\<lparr>rows = 2, cols = 1, data = [1, 2 :: real]\<rparr>"
  have a: "wf_matrix ?B" and b: "rows ?B < 2 ^ 31" and c: "cols ?B < 2 ^ 31"
    and d: "wf_matrix ?T" and e: "length [0, 0 :: real] = rows ?T * cols ?T"
    by (simp_all add: wf_matrix_def)
  from serialization_round_trip [OF a b c d e, of "[]" "[]"]
  have "m_fread (m_fwrite ?B @ []) = Some (?B, []) \<and>
        (\<exists>ts'. m_fscan [0, 0] (m_fprint ?T @ []) = Some (?T\<lparr>data := map lg [1, 2]\<rparr>, ts'))"
    by auto
  with a b c d e show ?thesis by blast
qed

lemma lg_1234567: "lg 1234567 = 1234570"
proof -
  have "\<lfloor>log 10 \<bar>1234567 :: real\<bar>\<rfloor> = 6"
    by (subst floor_log_eq_powr_iff) simp_all
  moreover have "round_half_even (1234567 / 10) = 123457"
  proof -
    have "\<lfloor>1234567 / 10 :: real\<rfloor> = 123456" by linarith
    then show ?thesis by (simp add: round_half_even_def)
  qed
  ultimately show ?thesis by (simp add: lg_def)
qed

theorem m_fprint_m_fscan_counterexample:
  "m_fscan [0] (m_fprint \<lparr>rows = 1, cols = 1, data = [1234567]\<rparr>) =
     Some (\<lparr>rows = 1, cols = 1, data = [1234570]\<rparr>, [Space, Newline])"
  by (simp add: m_fscan_def m_fprint_def fprint_row_def scan_d_def scan_lf_def fscan_elem_def
        m_initialize_def elem_set_def elem_def lg_1234567)

subsection \<open>The cofactor matrix, entry by entry\<close>

text \<open>
  For every square matrix, the loops of \<open>m_cofactor\<close> fill the scratch matrix with the
  minor without the row \<open>i\<close> and the column \<open>j\<close>, whatever it held before, and store
  at \<open>(j, i)\<close> the value that \<open>m_determinant\<close> returns for it, signed by
  \<open>(-1) ^ (i + j)\<close>.
\<close>

lemma minor_spec_skip:
  "minor_spec M i j =
     \<lparr>rows = rows M - 1, cols = cols M - 1,
      data = concat (map (\<lambda>c. map (\<lambda>r. elem M (skip_index i r) (skip_index j c))
                                [0..<rows M - 1]) [0..<cols M - 1])\<rparr>"
  by (simp add: minor_spec_def skip_index_def)

lemma filter_skip: "j < n \<Longrightarrow> filter (\<lambda>c. j \<noteq> c) [0..<n] = map (skip_index j) [0..<n - 1]"
proof (induction n)
  case 0
  then show ?case by simp
next
  case (Suc m)
  show ?case
  proof (cases "j < m")
    case True
    then obtain m' where m': "m = Suc m'" by (cases m) auto
    have sk: "skip_index j m' = m" using True m' by (simp add: skip_index_def)
    have "filter (\<lambda>c. j \<noteq> c) [0..<Suc m] = filter (\<lambda>c. j \<noteq> c) [0..<m] @ [m]"
      using True by simp
    also have "\<dots> = map (skip_index j) [0..<m'] @ [skip_index j m']"
      using Suc.IH [OF True] by (simp only: sk m' diff_Suc_1)
    also have "\<dots> = map (skip_index j) [0..<Suc m']" by simp
    finally show ?thesis by (simp only: m' diff_Suc_1)
  next
    case False
    with Suc.prems have jm: "j = m" by simp
    have "filter (\<lambda>c. m \<noteq> c) [0..<m] = [0..<m]" by (rule filter_True) auto
    moreover have "map (skip_index m) [0..<m] = [0..<m]"
      by (rule map_idI) (simp add: skip_index_def)
    ultimately show ?thesis by (simp add: jm)
  qed
qed

lemma cofactor_fill_cols_zip:
  "cofactor_fill_cols M j r row cs A col =
     fold (\<lambda>(t, c) A. elem_set A row t (elem M r c))
       (zip [col..<col + length (filter (\<lambda>c. j \<noteq> c) cs)] (filter (\<lambda>c. j \<noteq> c) cs)) A"
proof (induction cs arbitrary: A col)
  case Nil
  show ?case by simp
next
  case (Cons c cs)
  show ?case
  proof (cases "j = c")
    case True
    then show ?thesis using Cons.IH by simp
  next
    case False
    let ?k = "length (filter (\<lambda>c. j \<noteq> c) cs)"
    have "[col..<col + Suc ?k] = col # [Suc col..<col + Suc ?k]"
      by (rule upt_conv_Cons) simp
    then have "[col..<col + Suc ?k] = col # [Suc col..<Suc col + ?k]" by simp
    with False Cons.IH [of "elem_set A row col (elem M r c)" "Suc col"] show ?thesis
      by (simp del: upt_Suc)
  qed
qed

lemma zip_map_self: "zip xs (map f xs) = map (\<lambda>t. (t, f t)) xs"
  by (simp add: zip_map2 zip_same_conv_map)

lemma cofactor_fill_cols_fold:
  assumes "j < cols M"
  shows "cofactor_fill_cols M j r row [0..<cols M] A 0 =
           fold (\<lambda>t A. elem_set A row t (elem M r (skip_index j t))) [0..<cols M - 1] A"
proof -
  show ?thesis
    by (simp add: cofactor_fill_cols_zip filter_skip [OF assms] zip_map_self fold_map comp_def)
qed

lemma cofactor_fill_rows_zip:
  "cofactor_fill_rows M i j rs A row =
     fold (\<lambda>(t, r) A. cofactor_fill_cols M j r t [0..<cols M] A 0)
       (zip [row..<row + length (filter (\<lambda>r. i \<noteq> r) rs)] (filter (\<lambda>r. i \<noteq> r) rs)) A"
proof (induction rs arbitrary: A row)
  case Nil
  show ?case by simp
next
  case (Cons r rs)
  show ?case
  proof (cases "i = r")
    case True
    then show ?thesis using Cons.IH by simp
  next
    case False
    let ?k = "length (filter (\<lambda>r. i \<noteq> r) rs)"
    have "[row..<row + Suc ?k] = row # [Suc row..<row + Suc ?k]"
      by (rule upt_conv_Cons) simp
    then have "[row..<row + Suc ?k] = row # [Suc row..<Suc row + ?k]" by simp
    with False Cons.IH [of "cofactor_fill_cols M j r row [0..<cols M] A 0" "Suc row"]
    show ?thesis by (simp del: upt_Suc)
  qed
qed

lemma cofactor_fill_rows_fold:
  assumes "i < rows M" and "j < cols M"
  shows "cofactor_fill_rows M i j [0..<rows M] A 0 =
           fold (\<lambda>t. fold (\<lambda>s A. elem_set A t s (elem M (skip_index i t) (skip_index j s)))
                        [0..<cols M - 1])
             [0..<rows M - 1] A"
proof -
  show ?thesis
    by (simp add: cofactor_fill_rows_zip filter_skip [OF assms(1)] zip_map_self fold_map comp_def
          cofactor_fill_cols_fold [OF assms(2)])
qed


lemma assign_cells_any_order:
  assumes "rows R = rows M" and "cols R = cols M" and "wf_matrix R"
    and "distinct ps" and "set ps = set (scan_order M)"
  shows "fold (\<lambda>(i, j) R. elem_set R i j (h (cell M (i, j)))) ps R =
           R\<lparr>data := map h [0..<rows M * cols M]\<rparr>"
proof -
  let ?ps = "map (cell M) ps"
  let ?F = "\<lambda>(q::nat) (old::'a). h q"
  have len: "length (data R) = rows M * cols M" using assms by (simp add: wf_matrix_def)
  have d: "distinct ?ps"
    using assms(4,5) cell_inj [of M] by (simp add: distinct_map)
  have r: "set ?ps = {..<rows M * cols M}"
    using assms(5) cell_range [of M] by simp
  have "fold (\<lambda>(i, j) R. elem_set R i j (h (cell M (i, j)))) ps R =
          R\<lparr>data := fold (\<lambda>p ys. ys[p := ?F p (ys ! p)]) ?ps (data R)\<rparr>"
    using fold_elem_set_cells [OF assms(1), of ?F ps] by simp
  also have "fold (\<lambda>p ys. ys[p := ?F p (ys ! p)]) ?ps (data R) =
               map (\<lambda>q. if q \<in> set ?ps then ?F q (data R ! q) else data R ! q)
                 [0..<length (data R)]"
  proof (rule update_all_cells)
    show "distinct ?ps" by (rule d)
    show "set ?ps \<subseteq> {..<length (data R)}" by (simp only: r len)
  qed
  also have "\<dots> = map h [0..<rows M * cols M]"
    by (rule nth_equalityI) (simp_all add: r len del: set_map)
  finally show ?thesis .
qed

lemma assign_by_position:
  assumes "wf_matrix A"
  shows "fold (\<lambda>t. fold (\<lambda>s A. elem_set A t s (v t s)) [0..<cols A]) [0..<rows A] A =
           A\<lparr>data := map (\<lambda>q. v (q mod rows A) (q div rows A)) [0..<rows A * cols A]\<rparr>"
proof -
  let ?h = "\<lambda>q. v (q mod rows A) (q div rows A)"
  have "fold (\<lambda>t. fold (\<lambda>s A. elem_set A t s (v t s)) [0..<cols A]) [0..<rows A] A =
          fold (\<lambda>(t, s) A. elem_set A t s (v t s)) (scan_order A) A"
    by (simp add: fold_nested_product scan_order_def)
  also have "\<dots> = fold (\<lambda>(t, s) B. elem_set B t s (?h (cell A (t, s)))) (scan_order A) A"
  proof (rule fold_cong [OF refl refl])
    fix p assume "p \<in> set (scan_order A)"
    then have "fst p < rows A" by (auto simp: scan_order_def)
    then show "(case p of (t, s) \<Rightarrow> \<lambda>A. elem_set A t s (v t s)) =
               (case p of (t, s) \<Rightarrow> \<lambda>B. elem_set B t s (?h (cell A (t, s))))"
      by (cases p) (simp add: cell_def)
  qed
  also have "\<dots> = A\<lparr>data := map ?h [0..<rows A * cols A]\<rparr>"
    by (rule assign_cells_any_order)
       (simp_all add: assms scan_order_def distinct_product)
  finally show ?thesis .
qed

lemma concat_map_grid:
  "concat (map (\<lambda>c. map (f c) [0..<m]) [0..<k]) = map (\<lambda>q. f (q div m) (q mod m)) [0..<k * m]"
proof (induction k)
  case 0
  show ?case by simp
next
  case (Suc k)
  have "[0..<Suc k * m] = [0..<k * m] @ [k * m..<m + k * m]"
    using upt_add_eq_append [of 0 "k * m" m] by (simp add: add.commute)
  also have "[k * m..<m + k * m] = map (\<lambda>r. r + k * m) [0..<m]"
    by (simp only: map_add_upt)
  finally have "map (\<lambda>q. f (q div m) (q mod m)) [0..<Suc k * m] =
                  map (\<lambda>q. f (q div m) (q mod m)) [0..<k * m] @ map (f k) [0..<m]"
    by (simp add: comp_def)
  with Suc.IH show ?case by simp
qed

lemma cofactor_fill_minor:
  assumes "rows A = rows M - 1" and "cols A = cols M - 1" and "wf_matrix A"
    and "i < rows M" and "j < cols M"
  shows "cofactor_fill_rows M i j [0..<rows M] A 0 = minor_spec M i j"
proof -
  let ?v = "\<lambda>t s. elem M (skip_index i t) (skip_index j s)"
  have "cofactor_fill_rows M i j [0..<rows M] A 0 =
          fold (\<lambda>t. fold (\<lambda>s A. elem_set A t s (?v t s)) [0..<cols A]) [0..<rows A] A"
    by (simp only: cofactor_fill_rows_fold [OF assms(4,5)] assms(1,2))
  also have "\<dots> = A\<lparr>data := map (\<lambda>q. ?v (q mod rows A) (q div rows A)) [0..<rows A * cols A]\<rparr>"
    by (rule assign_by_position [OF assms(3)])
  also have "map (\<lambda>q. ?v (q mod rows A) (q div rows A)) [0..<rows A * cols A] =
               concat (map (\<lambda>c. map (\<lambda>r. ?v r c) [0..<rows A]) [0..<cols A])"
    by (simp add: concat_map_grid mult.commute)
  finally show ?thesis
    by (simp add: minor_spec_skip assms(1,2))
qed


lemma minor_spec_wf:
  "rows (minor_spec M i j) = rows M - 1 \<and> cols (minor_spec M i j) = cols M - 1 \<and>
   wf_matrix (minor_spec M i j)"
  by (simp add: minor_spec_skip wf_matrix_def concat_map_grid mult.commute)

lemma det_value_eq: "cols A = rows A \<Longrightarrow> m_determinant A = Some (Returned (det_value A))"
  using m_determinant_returns [of A] by (auto simp: det_value_def)

lemma det_sign_power: "real_of_int (det_sign i j) = (- 1) ^ (i + j)"
  by (cases "even i"; cases "even j")
     (simp_all add: det_sign_def minus_one_power_iff even_iff_mod_2_eq_zero, presburger+)

lemma cofactor_cols_fold:
  assumes "cols M = rows M" and "i < rows M" and "set js \<subseteq> {..<cols M}"
    and "rows A = rows M - 1" and "cols A = cols M - 1" and "wf_matrix A"
  shows "\<exists>A'. cofactor_cols M i js A R =
            Some (Returned (A', fold (\<lambda>j R. elem_set R j i
                    (det_value (minor_spec M i j) * real_of_int (det_sign i j))) js R)) \<and>
          rows A' = rows M - 1 \<and> cols A' = cols M - 1 \<and> wf_matrix A'"
  using assms(3-6)
proof (induction js arbitrary: A R)
  case Nil
  then show ?case by simp
next
  case (Cons j js)
  let ?A = "minor_spec M i j"
  have j: "j < cols M" using Cons.prems(1) by simp
  have fill: "cofactor_fill_rows M i j [0..<rows M] A 0 = ?A"
    by (rule cofactor_fill_minor [OF Cons.prems(2-4) assms(2) j])
  have sq: "cols ?A = rows ?A" using assms(1) by (simp add: minor_spec_wf)
  have d: "m_determinant ?A = Some (Returned (det_value ?A))" by (rule det_value_eq [OF sq])
  have js: "set js \<subseteq> {..<cols M}" using Cons.prems(1) by simp
  from Cons.IH [OF js, of ?A] minor_spec_wf [of M i j] show ?case
    by (simp add: fill d Let_def)
qed

lemma cofactor_rows_fold:
  assumes "cols M = rows M" and "set is \<subseteq> {..<rows M}"
    and "rows A = rows M - 1" and "cols A = cols M - 1" and "wf_matrix A"
  shows "cofactor_rows M is A R =
           Some (Returned (fold (\<lambda>i. fold (\<lambda>j R. elem_set R j i
                    (det_value (minor_spec M i j) * real_of_int (det_sign i j))) [0..<cols M])
                  is R))"
  using assms(2-5)
proof (induction "is" arbitrary: A R)
  case Nil
  show ?case by simp
next
  case (Cons i "is")
  have i: "i < rows M" using Cons.prems(1) by simp
  have sub: "set [0..<cols M] \<subseteq> {..<cols M}" by auto
  from cofactor_cols_fold [OF assms(1) i sub Cons.prems(2-4), of R]
  obtain A' where
    c: "cofactor_cols M i [0..<cols M] A R =
          Some (Returned (A', fold (\<lambda>j R. elem_set R j i
                  (det_value (minor_spec M i j) * real_of_int (det_sign i j))) [0..<cols M] R))"
    and ok: "rows A' = rows M - 1" "cols A' = cols M - 1" "wf_matrix A'" by blast
  have "set is \<subseteq> {..<rows M}" using Cons.prems(1) by simp
  from Cons.IH [OF this ok] show ?case by (simp add: c)
qed

lemma assign_transposed:
  assumes "cols R = rows R" and "wf_matrix R"
  shows "fold (\<lambda>i. fold (\<lambda>j R. elem_set R j i (w i j)) [0..<cols R]) [0..<rows R] R =
           R\<lparr>data := map (\<lambda>q. w (q div rows R) (q mod rows R)) [0..<rows R * cols R]\<rparr>"
proof -
  let ?h = "\<lambda>q. w (q div rows R) (q mod rows R)"
  let ?ps = "map prod.swap (scan_order R)"
  have "fold (\<lambda>i. fold (\<lambda>j R. elem_set R j i (w i j)) [0..<cols R]) [0..<rows R] R =
          fold (\<lambda>(i, j) R. elem_set R j i (w i j)) (scan_order R) R"
    by (simp add: fold_nested_product scan_order_def)
  also have "\<dots> = fold (\<lambda>(a, b) R. elem_set R a b (w b a)) ?ps R"
    by (simp add: fold_map comp_def case_prod_unfold)
  also have "\<dots> = fold (\<lambda>(a, b) B. elem_set B a b (?h (cell R (a, b)))) ?ps R"
  proof (rule fold_cong [OF refl refl])
    fix p assume "p \<in> set ?ps"
    then have "fst p < rows R" using assms(1) by (auto simp: scan_order_def)
    then show "(case p of (a, b) \<Rightarrow> \<lambda>R. elem_set R a b (w b a)) =
               (case p of (a, b) \<Rightarrow> \<lambda>B. elem_set B a b (?h (cell R (a, b))))"
      by (cases p) (simp add: cell_def)
  qed
  also have "\<dots> = R\<lparr>data := map ?h [0..<rows R * cols R]\<rparr>"
  proof (rule assign_cells_any_order [OF refl refl assms(2)])
    show "distinct ?ps"
      by (simp add: distinct_map scan_order_def distinct_product)
    show "set ?ps = set (scan_order R)"
      using assms(1) by (auto simp: scan_order_def)
  qed
  finally show ?thesis .
qed

lemma m_cofactor_entries:
  assumes "cols M = rows M"
  shows "\<exists>R. m_cofactor M = Some (Returned R) \<and> rows R = rows M \<and> cols R = cols M \<and>
           (\<forall>i<rows M. \<forall>j<cols M.
              m_determinant (minor_spec M i j) = Some (Returned (det_value (minor_spec M i j))) \<and>
              elem R j i = (- 1) ^ (i + j) * det_value (minor_spec M i j))"
proof -
  let ?n = "rows M"
  let ?A = "m_initialize (rows M - 1) (cols M - 1) (replicate ((rows M - 1) * (cols M - 1)) (0::real))"
  let ?R = "m_initialize (rows M) (cols M) (replicate (rows M * cols M) (0::real))"
  let ?w = "\<lambda>i j. det_value (minor_spec M i j) * real_of_int (det_sign i j)"
  let ?h = "\<lambda>q. ?w (q div ?n) (q mod ?n)"
  have A: "rows ?A = rows M - 1" "cols ?A = cols M - 1" "wf_matrix ?A"
    by (simp_all add: m_initialize_def wf_matrix_def)
  have R: "rows ?R = ?n" "cols ?R = ?n" "wf_matrix ?R"
    using assms by (simp_all add: m_initialize_def wf_matrix_def)
  have "m_cofactor M = cofactor_rows M [0..<rows M] ?A ?R"
    using assms by (simp add: m_cofactor_def)
  also have "\<dots> = Some (Returned (fold (\<lambda>i. fold (\<lambda>j R. elem_set R j i (?w i j)) [0..<cols M])
                                    [0..<rows M] ?R))"
    by (rule cofactor_rows_fold [OF assms _ A]) auto
  also have "fold (\<lambda>i. fold (\<lambda>j R. elem_set R j i (?w i j)) [0..<cols M]) [0..<rows M] ?R =
               fold (\<lambda>i. fold (\<lambda>j R. elem_set R j i (?w i j)) [0..<cols ?R]) [0..<rows ?R] ?R"
    using assms by (simp add: m_initialize_def)
  also have "\<dots> = ?R\<lparr>data := map ?h [0..<rows ?R * cols ?R]\<rparr>"
    using assign_transposed [of ?R ?w] R by simp
  finally have res: "m_cofactor M = Some (Returned (?R\<lparr>data := map ?h [0..<?n * ?n]\<rparr>))"
    by (simp only: R)
  have "elem (?R\<lparr>data := map ?h [0..<?n * ?n]\<rparr>) j i =
          (- 1) ^ (i + j) * det_value (minor_spec M i j)" if "i < ?n" "j < ?n" for i j
  proof -
    have "i * ?n + j < i * ?n + ?n" using that by simp
    also have "\<dots> = Suc i * ?n" by simp
    also have "\<dots> \<le> ?n * ?n" using that by (intro mult_le_mono1) simp
    finally have lt: "i * ?n + j < ?n * ?n" .
    then show ?thesis
      using that by (simp add: elem_def m_initialize_def det_sign_power)
  qed
  moreover have "m_determinant (minor_spec M i j) = Some (Returned (det_value (minor_spec M i j)))"
    for i j
    by (rule det_value_eq) (simp add: minor_spec_wf assms)
  ultimately show ?thesis
    using res assms by (simp add: m_initialize_def)
qed

subsection \<open>The value that the determinant returns\<close>

text \<open>
  The filling loops of \<open>m_determinant\<close> leave in the scratch matrix the minor without the
  row 0 and the column \<open>j\<close>, whatever it held before, and leave \<open>i\<close> at \<open>rows M\<close>.
  So, for every square matrix, \<open>m_determinant\<close> returns the expansion along the first row
  times \<open>stale_sign (rows M)\<close>: the expansion itself for the orders 1, 2, 5, 6, 9, 10, ...,
  and its opposite for the orders 3, 4, 7, 8, .... The cofactor matrix inherits the factor
  of the order \<open>rows M - 1\<close>.
\<close>

lemma det_fill_rows_fold:
  "det_fill_rows M k c is A = fold (\<lambda>i A. elem_set A (i - 1) c (elem M i k)) is A"
  by (induction "is" arbitrary: A) simp_all

lemma det_fill_rows_upt:
  "det_fill_rows M k c [1..<rows M] A =
     fold (\<lambda>t A. elem_set A t c (elem M (skip_index 0 t) k)) [0..<rows M - 1] A"
proof -
  have "[1..<rows M] = map Suc [0..<rows M - 1]"
    by (cases "rows M") (simp_all add: map_Suc_upt del: upt_Suc)
  then show ?thesis
    by (simp add: det_fill_rows_fold fold_map comp_def skip_index_def)
qed

lemma det_fill_cols_zip:
  "det_fill_cols M j ks A c i =
     (fold (\<lambda>(s, k) A. det_fill_rows M k s [1..<rows M] A)
        (zip [c..<c + length (filter (\<lambda>k. j \<noteq> k) ks)] (filter (\<lambda>k. j \<noteq> k) ks)) A,
      if filter (\<lambda>k. j \<noteq> k) ks = [] then i else max 1 (rows M))"
proof (induction ks arbitrary: A c i)
  case Nil
  show ?case by simp
next
  case (Cons k ks)
  show ?case
  proof (cases "k = j")
    case True
    then show ?thesis using Cons.IH by simp
  next
    case False
    let ?n = "length (filter (\<lambda>k. j \<noteq> k) ks)"
    have "[c..<c + Suc ?n] = c # [Suc c..<c + Suc ?n]"
      by (rule upt_conv_Cons) simp
    then have u: "[c..<c + Suc ?n] = c # [Suc c..<Suc c + ?n]" by simp
    from False have jk: "j \<noteq> k" by simp
    show ?thesis
      using False jk Cons.IH [of "det_fill_rows M k c [1..<rows M] A" "Suc c" "max 1 (rows M)"] u
      by (simp del: upt_Suc)
  qed
qed

lemma det_fill_minor:
  assumes "cols M = rows M" and "2 \<le> rows M" and "j < cols M"
    and "rows A = rows M - 1" and "cols A = cols M - 1" and "wf_matrix A"
  shows "det_fill_cols M j [0..<cols M] A 0 i = (minor_spec M 0 j, rows M)"
proof -
  let ?v = "\<lambda>s t. elem M (skip_index 0 t) (skip_index j s)"
  have sq: "cols A = rows A" using assms by simp
  have ne: "filter (\<lambda>k. j \<noteq> k) [0..<cols M] \<noteq> []"
    using assms(1-3) by (simp add: filter_skip)
  have r: "det_fill_rows M k c [Suc 0..<rows M] B =
             fold (\<lambda>t A. elem_set A t c (elem M (skip_index 0 t) k)) [0..<rows M - Suc 0] B"
    for k c B using det_fill_rows_upt [of M k c B] by simp
  have "fst (det_fill_cols M j [0..<cols M] A 0 i) =
          fold (\<lambda>s. fold (\<lambda>t A. elem_set A t s (?v s t)) [0..<rows M - 1]) [0..<cols M - 1] A"
    by (simp add: det_fill_cols_zip filter_skip [OF assms(3)] zip_map_self fold_map comp_def r)
  also have "\<dots> = fold (\<lambda>s. fold (\<lambda>t A. elem_set A t s (?v s t)) [0..<cols A]) [0..<rows A] A"
    using assms by simp
  also have "\<dots> = A\<lparr>data := map (\<lambda>q. ?v (q div rows A) (q mod rows A)) [0..<rows A * cols A]\<rparr>"
    by (rule assign_transposed [OF sq assms(6)])
  also have "map (\<lambda>q. ?v (q div rows A) (q mod rows A)) [0..<rows A * cols A] =
               concat (map (\<lambda>c. map (\<lambda>r. ?v c r) [0..<rows A]) [0..<cols A])"
    by (simp add: concat_map_grid mult.commute)
  finally have "fst (det_fill_cols M j [0..<cols M] A 0 i) = minor_spec M 0 j"
    by (simp add: minor_spec_skip assms(4,5))
  moreover have "snd (det_fill_cols M j [0..<cols M] A 0 i) = rows M"
    using ne assms(2) by (simp add: det_fill_cols_zip)
  ultimately show ?thesis by (simp add: prod_eq_iff)
qed

lemma det_loop_sum:
  assumes rec: "\<And>B :: real matrix. cols B = rows B \<Longrightarrow> rows B = rows M - 1 \<Longrightarrow>
                  m_determinant_fuel n B = Some (Returned (D B))"
    and "cols M = rows M" and "2 \<le> rows M" and "set js \<subseteq> {..<cols M}"
    and "rows A = rows M - 1" and "cols A = cols M - 1" and "wf_matrix A"
  shows "det_loop n M js A det i =
           Some (Returned (det + (\<Sum>j\<leftarrow>js. real_of_int (det_sign (rows M) j) * elem M 0 j *
                                            D (minor_spec M 0 j))))"
  using assms(4-7)
proof (induction js arbitrary: A det i)
  case Nil
  show ?case by simp
next
  case (Cons j js)
  let ?A = "minor_spec M 0 j"
  have j: "j < cols M" using Cons.prems(1) by simp
  have f: "det_fill_cols M j [0..<cols M] A 0 i = (?A, rows M)"
    by (rule det_fill_minor [OF assms(2,3) j Cons.prems(2-4)])
  have A: "rows ?A = rows M - 1" "cols ?A = cols M - 1" "wf_matrix ?A"
    by (simp_all add: minor_spec_wf)
  have v: "m_determinant_fuel n ?A = Some (Returned (D ?A))"
    by (rule rec) (simp_all add: A assms(2))
  have js: "set js \<subseteq> {..<cols M}" using Cons.prems(1) by simp
  show ?case
    using Cons.IH [OF js A] by (simp add: f v add.assoc)
qed

lemma det_spec_sum_list:
  "det_spec_sum n M js = (\<Sum>j\<leftarrow>js. (- 1) ^ j * elem M 0 j * det_spec n (minor_spec M 0 j))"
  by (induction js) simp_all

lemma stale_sign_Suc:
  assumes "2 \<le> m"
  shows "stale_sign (Suc m) = (- 1) ^ Suc m * stale_sign m"
proof -
  have "m mod 4 = 0 \<or> m mod 4 = 1 \<or> m mod 4 = 2 \<or> m mod 4 = 3" by presburger
  then show ?thesis
  proof (elim disjE)
    assume h: "m mod 4 = 0"
    then have "Suc m mod 4 = 1" "even m" by presburger+
    with h assms show ?thesis by (simp add: stale_sign_def)
  next
    assume h: "m mod 4 = 1"
    then have "Suc m mod 4 = 2" "odd m" by presburger+
    with h assms show ?thesis by (simp add: stale_sign_def)
  next
    assume h: "m mod 4 = 2"
    then have "Suc m mod 4 = 3" "even m" by presburger+
    with h assms show ?thesis by (simp add: stale_sign_def)
  next
    assume h: "m mod 4 = 3"
    then have "Suc m mod 4 = 0" "odd m" by presburger+
    with h assms show ?thesis by (simp add: stale_sign_def)
  qed
qed

lemma m_determinant_fuel_value:
  "cols M = rows M \<Longrightarrow> rows M \<le> Suc n \<Longrightarrow>
   m_determinant_fuel (Suc n) M = Some (Returned (stale_sign (rows M) * det_spec (rows M) M))"
proof (induction n arbitrary: M)
  case 0
  then have "rows M = 0 \<or> rows M = 1" by linarith
  then show ?case using 0 by (auto simp: stale_sign_def)
next
  case (Suc n)
  show ?case
  proof (cases "rows M < 3")
    case True
    then have "rows M = 0 \<or> rows M = 1 \<or> rows M = 2" by linarith
    then show ?thesis using Suc.prems by (auto simp: stale_sign_def numeral_2_eq_2)
  next
    case False
    then obtain m where m: "rows M = Suc m" "2 \<le> m" by (cases "rows M") auto
    let ?A = "m_initialize (rows M - 1) (cols M - 1)
                (replicate ((rows M - 1) * (cols M - 1)) (0::real))"
    let ?D = "\<lambda>B :: real matrix. stale_sign (rows B) * det_spec (rows B) B"
    have A: "rows ?A = rows M - 1" "cols ?A = cols M - 1" "wf_matrix ?A"
      by (simp_all add: m_initialize_def wf_matrix_def)
    have two: "2 \<le> rows M" using False by simp
    have sub: "set [0..<cols M] \<subseteq> {..<cols M}" by auto
    have loop: "det_loop (Suc n) M [0..<cols M] ?A 0 0 =
            Some (Returned (0 + (\<Sum>j\<leftarrow>[0..<cols M]. real_of_int (det_sign (rows M) j) * elem M 0 j *
                                            ?D (minor_spec M 0 j))))"
    proof (rule det_loop_sum [OF _ Suc.prems(1) two sub A])
      fix B :: "real matrix" assume B: "cols B = rows B" "rows B = rows M - 1"
      then have "rows B \<le> Suc n" using Suc.prems(2) by linarith
      from Suc.IH [OF B(1) this]
      show "m_determinant_fuel (Suc n) B = Some (Returned (?D B))" .
    qed
    have summand: "real_of_int (det_sign (rows M) j) * elem M 0 j * ?D (minor_spec M 0 j) =
                stale_sign (Suc m) * ((- 1) ^ j * elem M 0 j * det_spec m (minor_spec M 0 j))" for j
      by (simp add: det_sign_power minor_spec_wf m stale_sign_Suc [OF m(2)] power_add)
    have "(\<Sum>j\<leftarrow>[0..<cols M]. real_of_int (det_sign (rows M) j) * elem M 0 j *
                                            ?D (minor_spec M 0 j)) =
          (\<Sum>j\<leftarrow>[0..<cols M]. stale_sign (Suc m) *
             ((- 1) ^ j * elem M 0 j * det_spec m (minor_spec M 0 j)))"
      by (simp only: summand)
    also have "\<dots> = stale_sign (Suc m) * det_spec_sum m M [0..<Suc m]"
      by (simp only: sum_list_const_mult det_spec_sum_list Suc.prems(1) m(1))
    also have "det_spec_sum m M [0..<Suc m] = det_spec (Suc m) M"
      using m(2) by simp
    finally show ?thesis
      using False Suc.prems(1) loop by (simp add: m(1))
  qed
qed

lemma m_determinant_value:
  "cols M = rows M \<Longrightarrow>
   m_determinant M = Some (Returned (stale_sign (rows M) * det_spec (rows M) M))"
  unfolding m_determinant_def by (rule m_determinant_fuel_value) simp_all

lemma det_value_spec:
  "cols M = rows M \<Longrightarrow> det_value M = stale_sign (rows M) * det_spec (rows M) M"
  by (simp add: det_value_def m_determinant_value)

lemma m_cofactor_value:
  assumes "cols M = rows M"
  shows "\<exists>R. m_cofactor M = Some (Returned R) \<and> rows R = rows M \<and> cols R = cols M \<and>
           (\<forall>i<rows M. \<forall>j<cols M.
              elem R j i = (- 1) ^ (i + j) *
                (stale_sign (rows M - 1) * det_spec (rows M - 1) (minor_spec M i j)))"
proof -
  from m_cofactor_entries [OF assms] obtain R where
    R: "m_cofactor M = Some (Returned R)" "rows R = rows M" "cols R = cols M"
       "\<forall>i<rows M. \<forall>j<cols M. elem R j i = (- 1) ^ (i + j) * det_value (minor_spec M i j)"
    by blast
  have "det_value (minor_spec M i j) =
          stale_sign (rows M - 1) * det_spec (rows M - 1) (minor_spec M i j)" for i j
    using det_value_spec [of "minor_spec M i j"] assms by (simp add: minor_spec_wf)
  with R show ?thesis by simp
qed

section \<open>Properties of LDA\<close>

text \<open>
  C1, as amended. When the factorization reports \<open>info \<noteq> 0\<close>, and when the
  factorization reports \<open>info = 0\<close> and the inversion from its factors and pivots reports
  \<open>info \<noteq> 0\<close>, \<open>m_inverseMatrix\<close> ends the process with the status 1; in no case does
  it report an error to its caller, and when both calls report \<open>info = 0\<close> it returns
  with the result of the inversion in the buffer of the matrix. The exit passes through
  the callers:
  \<open>m_matrix_division\<close> ends with it, and so does \<open>LDA\<close> when the inverse of the
  within-class scatter ends the process.
\<close>

theorem m_inverseMatrix_singular_exits:
  "(fst (LAPACKE_dgetrf (cols M) (rows M) (data M) (rows M)) \<noteq> 0 \<longrightarrow>
      m_inverseMatrix LAPACKE_dgetrf LAPACKE_dgetri M = Exited 1) \<and>
   (fst (LAPACKE_dgetrf (cols M) (rows M) (data M) (rows M)) = 0 \<and>
    fst (LAPACKE_dgetri (cols M)
           (fst (snd (LAPACKE_dgetrf (cols M) (rows M) (data M) (rows M))))
           (rows M)
           (snd (snd (LAPACKE_dgetrf (cols M) (rows M) (data M) (rows M))))) \<noteq> 0 \<longrightarrow>
      m_inverseMatrix LAPACKE_dgetrf LAPACKE_dgetri M = Exited 1) \<and>
   (fst (LAPACKE_dgetrf (cols M) (rows M) (data M) (rows M)) = 0 \<and>
    fst (LAPACKE_dgetri (cols M)
           (fst (snd (LAPACKE_dgetrf (cols M) (rows M) (data M) (rows M))))
           (rows M)
           (snd (snd (LAPACKE_dgetrf (cols M) (rows M) (data M) (rows M))))) = 0 \<longrightarrow>
      m_inverseMatrix LAPACKE_dgetrf LAPACKE_dgetri M =
        Returned (M\<lparr>data := snd (LAPACKE_dgetri (cols M)
           (fst (snd (LAPACKE_dgetrf (cols M) (rows M) (data M) (rows M))))
           (rows M)
           (snd (snd (LAPACKE_dgetrf (cols M) (rows M) (data M) (rows M)))))\<rparr>)) \<and>
   m_inverseMatrix LAPACKE_dgetrf LAPACKE_dgetri M \<noteq> Reported e \<and>
   (m_inverseMatrix LAPACKE_dgetrf LAPACKE_dgetri (m_copy B) = Exited x \<longrightarrow>
      m_matrix_division LAPACKE_dgetrf LAPACKE_dgetri A B = Exited x) \<and>
   (m_scatter old P_pca c entries (m_zeros (rows P_pca) (rows P_pca))
        (m_zeros (rows P_pca) (rows P_pca)) = Returned (S_b, S_w) \<and>
    m_inverse LAPACKE_dgetrf LAPACKE_dgetri S_w = Exited x \<longrightarrow>
      LDA LAPACKE_dgetrf LAPACKE_dgetri m_eigen old W_pca_tr P_pca c entries = Exited x)"
  by (auto simp: m_inverseMatrix_def m_matrix_division_def LDA_def split: prod.splits)

theorem m_inverseMatrix_singular_exits_witness:
  "fst (dgetrf_order1 (cols \<lparr>rows = 1, cols = 1, data = [0 :: real]\<rparr>)
          (rows \<lparr>rows = 1, cols = 1, data = [0 :: real]\<rparr>)
          (data \<lparr>rows = 1, cols = 1, data = [0 :: real]\<rparr>)
          (rows \<lparr>rows = 1, cols = 1, data = [0 :: real]\<rparr>)) \<noteq> 0 \<and>
   m_inverseMatrix dgetrf_order1 dgetri_order1 \<lparr>rows = 1, cols = 1, data = [0]\<rparr> = Exited 1 \<and>
   fst (dgetrf_one_column (cols \<lparr>rows = 1, cols = 2, data = [2, 0 :: real]\<rparr>)
          (rows \<lparr>rows = 1, cols = 2, data = [2, 0 :: real]\<rparr>)
          (data \<lparr>rows = 1, cols = 2, data = [2, 0 :: real]\<rparr>)
          (rows \<lparr>rows = 1, cols = 2, data = [2, 0 :: real]\<rparr>)) = 0 \<and>
   fst (dgetri_lda_check (cols \<lparr>rows = 1, cols = 2, data = [2, 0 :: real]\<rparr>)
          (fst (snd (dgetrf_one_column (cols \<lparr>rows = 1, cols = 2, data = [2, 0 :: real]\<rparr>)
                       (rows \<lparr>rows = 1, cols = 2, data = [2, 0 :: real]\<rparr>)
                       (data \<lparr>rows = 1, cols = 2, data = [2, 0 :: real]\<rparr>)
                       (rows \<lparr>rows = 1, cols = 2, data = [2, 0 :: real]\<rparr>))))
          (rows \<lparr>rows = 1, cols = 2, data = [2, 0 :: real]\<rparr>)
          (snd (snd (dgetrf_one_column (cols \<lparr>rows = 1, cols = 2, data = [2, 0 :: real]\<rparr>)
                       (rows \<lparr>rows = 1, cols = 2, data = [2, 0 :: real]\<rparr>)
                       (data \<lparr>rows = 1, cols = 2, data = [2, 0 :: real]\<rparr>)
                       (rows \<lparr>rows = 1, cols = 2, data = [2, 0 :: real]\<rparr>))))) = - 4 \<and>
   m_inverseMatrix dgetrf_one_column dgetri_lda_check \<lparr>rows = 1, cols = 2, data = [2, 0]\<rparr>
     = Exited 1 \<and>
   fst (dgetrf_order1 (cols \<lparr>rows = 1, cols = 1, data = [4 :: real]\<rparr>)
          (rows \<lparr>rows = 1, cols = 1, data = [4 :: real]\<rparr>)
          (data \<lparr>rows = 1, cols = 1, data = [4 :: real]\<rparr>)
          (rows \<lparr>rows = 1, cols = 1, data = [4 :: real]\<rparr>)) = 0 \<and>
   fst (dgetri_order1 (cols \<lparr>rows = 1, cols = 1, data = [4 :: real]\<rparr>)
          (fst (snd (dgetrf_order1 (cols \<lparr>rows = 1, cols = 1, data = [4 :: real]\<rparr>)
                       (rows \<lparr>rows = 1, cols = 1, data = [4 :: real]\<rparr>)
                       (data \<lparr>rows = 1, cols = 1, data = [4 :: real]\<rparr>)
                       (rows \<lparr>rows = 1, cols = 1, data = [4 :: real]\<rparr>))))
          (rows \<lparr>rows = 1, cols = 1, data = [4 :: real]\<rparr>)
          (snd (snd (dgetrf_order1 (cols \<lparr>rows = 1, cols = 1, data = [4 :: real]\<rparr>)
                       (rows \<lparr>rows = 1, cols = 1, data = [4 :: real]\<rparr>)
                       (data \<lparr>rows = 1, cols = 1, data = [4 :: real]\<rparr>)
                       (rows \<lparr>rows = 1, cols = 1, data = [4 :: real]\<rparr>))))) = 0 \<and>
   m_inverseMatrix dgetrf_order1 dgetri_order1 \<lparr>rows = 1, cols = 1, data = [4]\<rparr>
     = Returned \<lparr>rows = 1, cols = 1, data = [1 / 4]\<rparr> \<and>
   m_inverseMatrix dgetrf_order1 dgetri_order1 (m_copy \<lparr>rows = 1, cols = 1, data = [0]\<rparr>)
     = Exited 1 \<and>
   m_matrix_division dgetrf_order1 dgetri_order1 \<lparr>rows = 1, cols = 1, data = [4]\<rparr>
     \<lparr>rows = 1, cols = 1, data = [0]\<rparr> = Exited 1 \<and>
   m_scatter [0] \<lparr>rows = 1, cols = 2, data = [1, 3]\<rparr> 2
     [\<lparr>entry_class = 1, entry_name = ''s1''\<rparr>, \<lparr>entry_class = 2, entry_name = ''s2''\<rparr>]
     (m_zeros (rows \<lparr>rows = 1, cols = 2, data = [1, 3 :: real]\<rparr>)
              (rows \<lparr>rows = 1, cols = 2, data = [1, 3 :: real]\<rparr>))
     (m_zeros (rows \<lparr>rows = 1, cols = 2, data = [1, 3 :: real]\<rparr>)
              (rows \<lparr>rows = 1, cols = 2, data = [1, 3 :: real]\<rparr>))
     = Returned (\<lparr>rows = 1, cols = 1, data = [2]\<rparr>, \<lparr>rows = 1, cols = 1, data = [0]\<rparr>) \<and>
   m_inverse dgetrf_order1 dgetri_order1 \<lparr>rows = 1, cols = 1, data = [0]\<rparr> = Exited 1 \<and>
   LDA dgetrf_order1 dgetri_order1 m_eigen_order1 [0] \<lparr>rows = 1, cols = 1, data = [1]\<rparr>
     \<lparr>rows = 1, cols = 2, data = [1, 3]\<rparr> 2
     [\<lparr>entry_class = 1, entry_name = ''s1''\<rparr>, \<lparr>entry_class = 2, entry_name = ''s2''\<rparr>]
     = Exited 1"
proof -
  let ?M = "\<lparr>rows = 1, cols = 1, data = [0 :: real]\<rparr>"
  let ?A = "\<lparr>rows = 1, cols = 1, data = [4 :: real]\<rparr>"
  let ?W = "\<lparr>rows = 1, cols = 1, data = [1 :: real]\<rparr>"
  let ?P = "\<lparr>rows = 1, cols = 2, data = [1, 3 :: real]\<rparr>"
  let ?S = "\<lparr>rows = 1, cols = 1, data = [2 :: real]\<rparr>"
  let ?es = "[\<lparr>entry_class = 1, entry_name = ''s1''\<rparr>, \<lparr>entry_class = 2, entry_name = ''s2''\<rparr>]"
  have h1: "fst (dgetrf_order1 (cols ?M) (rows ?M) (data ?M) (rows ?M)) \<noteq> 0"
    by (simp add: dgetrf_order1_def)
  have h2: "m_inverseMatrix dgetrf_order1 dgetri_order1 (m_copy ?M) = Exited 1"
    by code_simp
  have h3: "m_scatter [0] ?P 2 ?es (m_zeros (rows ?P) (rows ?P)) (m_zeros (rows ?P) (rows ?P))
              = Returned (?S, ?M)"
    by code_simp
  have h4: "m_inverse dgetrf_order1 dgetri_order1 ?M = Exited 1"
    by code_simp
  let ?N = "\<lparr>rows = 1, cols = 2, data = [2, 0 :: real]\<rparr>"
  have g1: "fst (dgetrf_one_column (cols ?N) (rows ?N) (data ?N) (rows ?N)) = 0"
    by (simp add: dgetrf_one_column_def)
  have g2: "fst (dgetri_lda_check (cols ?N)
                   (fst (snd (dgetrf_one_column (cols ?N) (rows ?N) (data ?N) (rows ?N))))
                   (rows ?N)
                   (snd (snd (dgetrf_one_column (cols ?N) (rows ?N) (data ?N) (rows ?N))))) = - 4"
    by (simp add: dgetri_lda_check_def)
  note u = m_inverseMatrix_singular_exits
             [where LAPACKE_dgetrf = dgetrf_one_column and LAPACKE_dgetri = dgetri_lda_check
                and M = ?N]
  from u g1 g2 have c0: "m_inverseMatrix dgetrf_one_column dgetri_lda_check ?N = Exited 1"
    by simp
  have k1: "fst (dgetrf_order1 (cols ?A) (rows ?A) (data ?A) (rows ?A)) = 0"
    by (simp add: dgetrf_order1_def)
  have k2: "fst (dgetri_order1 (cols ?A)
                   (fst (snd (dgetrf_order1 (cols ?A) (rows ?A) (data ?A) (rows ?A))))
                   (rows ?A)
                   (snd (snd (dgetrf_order1 (cols ?A) (rows ?A) (data ?A) (rows ?A))))) = 0"
    by (simp add: dgetrf_order1_def dgetri_order1_def)
  note v = m_inverseMatrix_singular_exits
             [where LAPACKE_dgetrf = dgetrf_order1 and LAPACKE_dgetri = dgetri_order1
                and M = ?A]
  have k3: "snd (dgetri_order1 (cols ?A)
                   (fst (snd (dgetrf_order1 (cols ?A) (rows ?A) (data ?A) (rows ?A))))
                   (rows ?A)
                   (snd (snd (dgetrf_order1 (cols ?A) (rows ?A) (data ?A) (rows ?A))))) = [1 / 4]"
    by (simp add: dgetrf_order1_def dgetri_order1_def)
  from v k1 k2
  have "m_inverseMatrix dgetrf_order1 dgetri_order1 ?A =
          Returned (?A\<lparr>data := snd (dgetri_order1 (cols ?A)
                   (fst (snd (dgetrf_order1 (cols ?A) (rows ?A) (data ?A) (rows ?A))))
                   (rows ?A)
                   (snd (snd (dgetrf_order1 (cols ?A) (rows ?A) (data ?A) (rows ?A)))))\<rparr>)"
    by blast
  then have c4: "m_inverseMatrix dgetrf_order1 dgetri_order1 ?A
                   = Returned \<lparr>rows = 1, cols = 1, data = [1 / 4]\<rparr>"
    by (simp only: k3) simp
  note t = m_inverseMatrix_singular_exits
             [where LAPACKE_dgetrf = dgetrf_order1 and LAPACKE_dgetri = dgetri_order1
                and M = ?M and e = Singular and B = ?M and x = 1 and A = ?A and old = "[0]"
                and P_pca = ?P and c = 2 and entries = ?es and S_b = ?S and S_w = ?M
                and m_eigen = m_eigen_order1 and W_pca_tr = ?W]
  from t h1 have c1: "m_inverseMatrix dgetrf_order1 dgetri_order1 ?M = Exited 1" by blast
  from t h2 have c2: "m_matrix_division dgetrf_order1 dgetri_order1 ?A ?M = Exited 1" by blast
  from t h3 h4 have c3: "LDA dgetrf_order1 dgetri_order1 m_eigen_order1 [0] ?W ?P 2 ?es = Exited 1"
    by blast
  from h1 c1 g1 g2 c0 k1 k2 c4 h2 c2 h3 h4 c3 show ?thesis by blast
qed

theorem m_inverseMatrix_singular_counterexample:
  "m_inverseMatrix dgetrf_order1 dgetri_order1 \<lparr>rows = 1, cols = 1, data = [0]\<rparr> = Exited 1 \<and>
   m_inverseMatrix dgetrf_order1 dgetri_order1 \<lparr>rows = 1, cols = 1, data = [0]\<rparr>
     \<noteq> Reported Singular \<and>
   LDA dgetrf_order1 dgetri_order1 m_eigen_order1 [0] \<lparr>rows = 1, cols = 1, data = [1]\<rparr>
     \<lparr>rows = 1, cols = 2, data = [1, 3]\<rparr> 2
     [\<lparr>entry_class = 1, entry_name = ''s1''\<rparr>, \<lparr>entry_class = 2, entry_name = ''s2''\<rparr>]
     = Exited 1"
  by code_simp

text \<open>
  C3. Two classes of one image each, with the projected coordinates 1 and 3: the mean
  of the class means is 2 and the scatter between the classes is
  \<open>1 * (1 - 2)\<^sup>2 + 1 * (3 - 2)\<^sup>2 = 2\<close>. \<open>m_scatter\<close> adds the class means to the buffer
  of \<open>u\<close> as \<^verbatim>\<open>m_initialize\<close> left it: when the buffer held 5 before, \<open>u\<close> is
  \<open>(5 + 1 + 3) / 2\<close> and the scatter comes out as \<open>29 / 2\<close>; it is 2 when the buffer held
  0.
\<close>

theorem m_scatter_uninitialized_mean:
  "m_scatter [5] \<lparr>rows = 1, cols = 2, data = [1, 3]\<rparr> 2
     [\<lparr>entry_class = 1, entry_name = ''s1''\<rparr>, \<lparr>entry_class = 2, entry_name = ''s2''\<rparr>]
     (m_zeros 1 1) (m_zeros 1 1)
     = Returned (\<lparr>rows = 1, cols = 1, data = [29 / 2]\<rparr>, \<lparr>rows = 1, cols = 1, data = [0]\<rparr>) \<and>
   m_scatter [0] \<lparr>rows = 1, cols = 2, data = [1, 3]\<rparr> 2
     [\<lparr>entry_class = 1, entry_name = ''s1''\<rparr>, \<lparr>entry_class = 2, entry_name = ''s2''\<rparr>]
     (m_zeros 1 1) (m_zeros 1 1)
     = Returned (\<lparr>rows = 1, cols = 1, data = [2]\<rparr>, \<lparr>rows = 1, cols = 1, data = [0]\<rparr>) \<and>
   class_blocks \<lparr>rows = 1, cols = 2, data = [1, 3]\<rparr> 2
     [\<lparr>entry_class = 1, entry_name = ''s1''\<rparr>, \<lparr>entry_class = 2, entry_name = ''s2''\<rparr>]
     = [[0], [1]] \<and>
   grand_mean \<lparr>rows = 1, cols = 2, data = [1, 3]\<rparr> [[0], [1]] 0 = 2 \<and>
   S_b_spec \<lparr>rows = 1, cols = 2, data = [1, 3]\<rparr> [[0], [1]] 0 0 = 2"
  by code_simp

subsection \<open>The mean of the class means, entry by entry\<close>

text \<open>
  For every input with at least one class, the entry \<open>r\<close> of \<open>u\<close> is the previous
  contents of the cell plus the sum of the entries \<open>r\<close> of the class means, divided by
  \<open>c\<close>: it exceeds the mean of the class means by the previous contents divided by
  \<open>c\<close>. (The quotients of the model are those of the real numbers, so a count of zero
  is left out.)
\<close>

lemma fold_elem_set_column:
  "fold (\<lambda>j u. elem_set u j 0 (F j (elem u j 0))) js u =
     u\<lparr>data := fold (\<lambda>p ys. ys[p := F p (ys ! p)]) js (data u)\<rparr>"
proof (induction js arbitrary: u)
  case Nil
  show ?case by simp
next
  case (Cons j js)
  let ?u = "elem_set u j 0 (F j (elem u j 0))"
  have d: "data ?u = (data u)[j := F j (data u ! j)]" by (simp add: elem_set_def elem_def)
  have e: "?u\<lparr>data := ys\<rparr> = u\<lparr>data := ys\<rparr>" for ys by (simp add: elem_set_def)
  show ?case using Cons.IH [of ?u] by (simp add: d e)
qed

lemma update_column:
  assumes "length (data u) = n"
  shows "fold (\<lambda>j u. elem_set u j 0 (F j (elem u j 0))) [0..<n] u =
           u\<lparr>data := map (\<lambda>r. F r (data u ! r)) [0..<n]\<rparr>"
proof -
  have "fold (\<lambda>p ys. ys[p := F p (ys ! p)]) [0..<n] (data u) =
          map (\<lambda>q. if q \<in> set [0..<n] then F q (data u ! q) else data u ! q)
            [0..<length (data u)]"
    by (rule update_all_cells) (auto simp: assms)
  also have "\<dots> = map (\<lambda>r. F r (data u ! r)) [0..<n]"
    using assms by simp
  finally show ?thesis by (simp add: fold_elem_set_column)
qed

lemma add_class_means:
  assumes "length (data u) = n"
  shows "fold (\<lambda>i. fold (\<lambda>j u. elem_set u j 0 (elem u j 0 + elem (U ! i) j 0)) [0..<n]) [0..<c] u =
           u\<lparr>data := map (\<lambda>r. data u ! r + (\<Sum>i\<leftarrow>[0..<c]. elem (U ! i) r 0)) [0..<n]\<rparr>"
proof (induction c)
  case 0
  have "map ((!) (data u)) [0..<n] = data u" using assms map_nth [of "data u"] by simp
  then show ?case by simp
next
  case (Suc c)
  let ?v = "u\<lparr>data := map (\<lambda>r. data u ! r + (\<Sum>i\<leftarrow>[0..<c]. elem (U ! i) r 0)) [0..<n]\<rparr>"
  have l: "length (data ?v) = n" by simp
  have "fold (\<lambda>j u. elem_set u j 0 (elem u j 0 + elem (U ! c) j 0)) [0..<n] ?v =
          ?v\<lparr>data := map (\<lambda>r. data ?v ! r + elem (U ! c) r 0) [0..<n]\<rparr>"
    using update_column [OF l, of "\<lambda>j x. x + elem (U ! c) j 0"] by simp
  also have "\<dots> = u\<lparr>data := map (\<lambda>r. data u ! r + (\<Sum>i\<leftarrow>[0..<Suc c]. elem (U ! i) r 0)) [0..<n]\<rparr>"
    by (simp add: add.assoc)
  finally show ?case using Suc by simp
qed

lemma scatter_mean_entries:
  assumes "length old = rows X"
  shows "scatter_mean X c U old =
           \<lparr>rows = rows X, cols = 1,
            data = map (\<lambda>r. (old ! r + (\<Sum>i\<leftarrow>[0..<c]. elem (U ! i) r 0)) / real c)
                     [0..<rows X]\<rparr>"
proof -
  let ?u = "m_initialize (rows X) 1 old"
  let ?v = "?u\<lparr>data := map (\<lambda>r. data ?u ! r + (\<Sum>i\<leftarrow>[0..<c]. elem (U ! i) r 0)) [0..<rows X]\<rparr>"
  have l: "length (data ?u) = rows X" using assms by (simp add: m_initialize_def)
  have l': "length (data ?v) = rows X" by simp
  have "scatter_mean X c U old =
          fold (\<lambda>i u. elem_set u i 0 (elem u i 0 / real c)) [0..<rows X] ?v"
    unfolding scatter_mean_def using add_class_means [OF l, of U c] by simp
  also have "\<dots> = ?v\<lparr>data := map (\<lambda>r. data ?v ! r / real c) [0..<rows X]\<rparr>"
    using update_column [OF l', of "\<lambda>j x. x / real c"] by simp
  finally show ?thesis by (simp add: m_initialize_def)
qed

lemma scatter_mean_old_contents:
  assumes "length old = rows X" and "r < rows X" and "0 < c"
  shows "elem (scatter_mean X c U old) r 0 =
           elem (scatter_mean X c U (replicate (rows X) 0)) r 0 + old ! r / real c"
  using assms by (simp add: scatter_mean_entries elem_def add_divide_distrib)

end
